theory Spec2Isabelle
  imports Complex_Main "HOL-Library.Log_Nat"
begin

section \<open>The robot command client of \<^verbatim>\<open>articulated_franka/robot.py\<close>\<close>

text \<open>
  The class \<^verbatim>\<open>ImpedanceRegulation\<close> wraps three remote endpoints: a service that
  returns the end-effector transform, a service that sets the regulation config and an
  action client that takes the config as a goal. Everything outside the class (the
  robot controller, the transport, the wall clock) is modelled as a \<open>world\<close> that is
  passed through every method: what the client reads from it is taken from the world,
  what the client sends is appended to its list of events.
\<close>

subsection \<open>Data\<close>

text \<open>
  The status codes of \<^verbatim>\<open>actionlib_msgs.msg.GoalStatus\<close>. The message is declared by
  the transport library; the class compares the value returned by \<^verbatim>\<open>get_state()\<close>
  with \<^verbatim>\<open>PENDING\<close>, \<^verbatim>\<open>SUCCEEDED\<close>, \<^verbatim>\<open>PREEMPTED\<close>, \<^verbatim>\<open>ABORTED\<close> and \<^verbatim>\<open>LOST\<close>
  only.
\<close>

datatype GoalStatus =
  PENDING | ACTIVE | PREEMPTED | SUCCEEDED | ABORTED
  | REJECTED | PREEMPTING | RECALLING | RECALLED | LOST

text \<open>
  The exceptions the class can raise: the four \<^verbatim>\<open>RuntimeError\<close>s with their message,
  the \<^verbatim>\<open>AssertionError\<close> of a failed \<^verbatim>\<open>assert\<close> with its message, the
  \<^verbatim>\<open>TypeError\<close> of \<^verbatim>\<open>len(None)\<close>, and the \<^verbatim>\<open>ValueError\<close> of a \<^verbatim>\<open>reshape\<close>
  whose sizes do not match.
\<close>

datatype error =
  RuntimeError string
  | AssertionError string
  | TypeError
  | ValueError

text \<open>
  The config message. After \<^verbatim>\<open>_fill_in_config\<close> the gain fields hold
  \<^verbatim>\<open>np.array(x)\<close> where \<open>x\<close> is either \<^verbatim>\<open>None\<close> or a list of Python integers:
  \<open>None\<close> stands for \<^verbatim>\<open>np.array(None)\<close>.
\<close>

record config =
  o_T_ee_desired :: "real list"
  stiffness :: "int list option"
  damping :: "int list option"
  ee_control_force_bound :: real
  ee_control_torque_bound :: real

text \<open>What the client does to its endpoints, in the order it does it.\<close>

datatype event =
  CallGetEeTransform
  | CallConfig config
  | WaitForServer nat
  | SendGoal config
  | CancelGoal

text \<open>
  The world: the answers the client will read (whether \<^verbatim>\<open>wait_for_server\<close> succeeds,
  the successive results of \<^verbatim>\<open>get_state()\<close>, the successive readings of
  \<^verbatim>\<open>time.time()\<close>, the \<^verbatim>\<open>status\<close> field of \<^verbatim>\<open>get_result()\<close>, the payload of the
  transform service) and the events sent so far. A reading of the clock is
  the real number that the double returned by \<^verbatim>\<open>time.time()\<close> stands for; the two
  lists are finite, and a method that needs a reading when its list
  is exhausted has no result (\<open>None\<close>): the run is still waiting. The transport
  itself does not fail here: a service call answers, and \<^verbatim>\<open>get_result()\<close> has a
  status to show.
\<close>

record world =
  server_up :: bool
  states :: "GoalStatus list"
  clock :: "real list"
  result_status :: string
  o_T_ee :: "real list"
  events :: "event list"

subsection \<open>The endpoints\<close>

definition get_state :: "world \<Rightarrow> (GoalStatus \<times> world) option" where
  "get_state w = (case states w of [] \<Rightarrow> None | s # ss \<Rightarrow> Some (s, w\<lparr>states := ss\<rparr>))"

definition time_time :: "world \<Rightarrow> (real \<times> world) option" where
  "time_time w = (case clock w of [] \<Rightarrow> None | c # cs \<Rightarrow> Some (c, w\<lparr>clock := cs\<rparr>))"

definition emit :: "event \<Rightarrow> world \<Rightarrow> world" where
  "emit e w = w\<lparr>events := events w @ [e]\<rparr>"

definition cancel_goal :: "world \<Rightarrow> world" where
  "cancel_goal w = emit CancelGoal w"

definition send_goal :: "config \<Rightarrow> world \<Rightarrow> world" where
  "send_goal c w = emit (SendGoal c) w"

definition wait_for_server :: "nat \<Rightarrow> world \<Rightarrow> bool \<times> world" where
  "wait_for_server d w = (server_up w, emit (WaitForServer d) w)"

text \<open>The configs that went out, as a goal or through the config service.\<close>

fun sent_configs :: "event list \<Rightarrow> config list" where
  "sent_configs [] = []"
| "sent_configs (SendGoal c # es) = c # sent_configs es"
| "sent_configs (CallConfig c # es) = c # sent_configs es"
| "sent_configs (e # es) = sent_configs es"

subsection \<open>\<^verbatim>\<open>is_idle\<close>\<close>

definition idle_status :: "GoalStatus \<Rightarrow> bool" where
  "idle_status state \<longleftrightarrow>
     state = SUCCEEDED \<or> state = PREEMPTED \<or> state = ABORTED \<or> state = LOST"

definition is_idle :: "world \<Rightarrow> (bool \<times> world) option" where
  "is_idle w =
     (case get_state w of
        None \<Rightarrow> None
      | Some (state, w1) \<Rightarrow> Some (idle_status state, w1))"

subsection \<open>\<^verbatim>\<open>get_ee_transform\<close>\<close>

text \<open>
  \<^verbatim>\<open>np.array(xs).reshape(r, c)\<close> on a flat sequence: the rows are consecutive runs
  of \<open>c\<close> entries; \<^verbatim>\<open>ValueError\<close> when the sequence does not have \<open>r * c\<close> entries.
\<close>

fun rows :: "nat \<Rightarrow> nat \<Rightarrow> 'a list \<Rightarrow> 'a list list" where
  "rows 0 c xs = []"
| "rows (Suc r) c xs = take c xs # rows r c (drop c xs)"

definition reshape :: "nat \<Rightarrow> nat \<Rightarrow> 'a list \<Rightarrow> error + 'a list list" where
  "reshape r c xs = (if length xs = r * c then Inr (rows r c xs) else Inl ValueError)"

definition get_ee_transform :: "world \<Rightarrow> (error + real list list) \<times> world" where
  "get_ee_transform w =
     (let w1 = emit CallGetEeTransform w;
          res = o_T_ee w1
      in (reshape 4 4 res, w1))"

subsection \<open>\<^verbatim>\<open>_fill_in_config\<close>\<close>

text \<open>
  The target transform is a matrix, given by its rows; \<^verbatim>\<open>flatten().tolist()\<close> is
  their concatenation. The two gain arguments are \<^verbatim>\<open>Optional[Sequence]\<close>: only
  their length is ever read, so the entries may be of any type. The second
  \<^verbatim>\<open>assert\<close> takes \<^verbatim>\<open>len(stiffness)\<close>, of the variable as the first \<^verbatim>\<open>if\<close> has
  left it.
\<close>

definition fill_in_config ::
  "config \<Rightarrow> real list list \<Rightarrow> 'a list option \<Rightarrow> 'b list option \<Rightarrow> real \<Rightarrow> real
   \<Rightarrow> error + config" where
  "fill_in_config cfg target_transform stiffness0 damping0 force_bound torque_bound =
     (case (case stiffness0 of
              None \<Rightarrow> Inr None
            | Some s \<Rightarrow>
                if length s = 6 then Inr (Some [150, 150, 150, 10, 10, 10])
                else Inl (AssertionError ''Stiffness dimension does not match'')) of
        Inl e \<Rightarrow> Inl e
      | Inr stiffness1 \<Rightarrow>
          (case (case damping0 of
                   None \<Rightarrow> Inr None
                 | Some d \<Rightarrow>
                     (case stiffness1 of
                        None \<Rightarrow> Inl TypeError
                      | Some s1 \<Rightarrow>
                          if length s1 = 6 then Inr (Some [30, 30, 30, 8, 8, 8])
                          else Inl (AssertionError ''Damping dimension does not match''))) of
             Inl e \<Rightarrow> Inl e
           | Inr damping1 \<Rightarrow>
               Inr (cfg\<lparr>o_T_ee_desired := concat target_transform,
                        stiffness := stiffness1,
                        damping := damping1,
                        ee_control_force_bound := force_bound,
                        ee_control_torque_bound := torque_bound\<rparr>)))"

text \<open>
  A message as its constructor leaves it; every one of its fields is assigned by
  \<^verbatim>\<open>_fill_in_config\<close> before the message is sent.
\<close>

definition fresh_config :: config where
  "fresh_config =
     \<lparr>o_T_ee_desired = [], stiffness = Some [], damping = Some [],
      ee_control_force_bound = 0, ee_control_torque_bound = 0\<rparr>"

subsection \<open>\<^verbatim>\<open>set_ee\<close>\<close>

definition set_ee ::
  "real list list \<Rightarrow> 'a list option \<Rightarrow> 'b list option \<Rightarrow> real \<Rightarrow> real \<Rightarrow> world
   \<Rightarrow> (error + unit) \<times> world" where
  "set_ee target_transform stiffness0 damping0 force_bound torque_bound w =
     (let req = fresh_config\<lparr>o_T_ee_desired := concat target_transform\<rparr>
      in case fill_in_config req target_transform stiffness0 damping0
                force_bound torque_bound of
           Inl e \<Rightarrow> (Inl e, w)
         | Inr req' \<Rightarrow> (Inr (), emit (CallConfig req') w))"

subsection \<open>Subtraction of clock readings\<close>

text \<open>
  \<^verbatim>\<open>time.time() - t0\<close> subtracts two doubles: the result is the exact difference
  rounded to the nearest double, a tie going to the double whose last bit is 0. A
  double has 53 significant bits, so a number \<open>x\<close> with \<open>2\<^sup>e \<le> \<bar>x\<bar> < 2\<^sup>e\<^sup>+\<^sup>1\<close> is
  rounded to a multiple of \<open>2\<^sup>e\<^sup>-\<^sup>5\<^sup>2\<close>; below \<open>2\<^sup>-\<^sup>1\<^sup>0\<^sup>2\<^sup>2\<close> the spacing stays
  \<open>2\<^sup>-\<^sup>1\<^sup>0\<^sup>7\<^sup>4\<close>. Readings of a wall clock are far from the overflow of the format,
  which is left out.
\<close>

text \<open>The nearest integer, a tie going to the even one.\<close>

definition round_even :: "real \<Rightarrow> int" where
  "round_even q =
     (let f = \<lfloor>q\<rfloor>; d = q - of_int f
      in if d < 1 / 2 then f else if 1 / 2 < d then f + 1 else if even f then f else f + 1)"

text \<open>The exponent \<open>e\<close> with \<open>2\<^sup>e \<le> x < 2\<^sup>e\<^sup>+\<^sup>1\<close>, for a positive \<open>x\<close>.\<close>

definition binade :: "real \<Rightarrow> int" where
  "binade x = (if 1 \<le> x then bitlen \<lfloor>x\<rfloor> - 1 else - bitlen (\<lceil>1 / x\<rceil> - 1))"

definition round_double :: "real \<Rightarrow> real" where
  "round_double x =
     (if x = 0 then 0
      else let u = 2 powi (max (binade \<bar>x\<bar>) (- 1022) - 52)
           in of_int (round_even (x / u)) * u)"

definition float_sub :: "real \<Rightarrow> real \<Rightarrow> real" where
  "float_sub a b = round_double (a - b)"

subsection \<open>\<^verbatim>\<open>regulate_ee\<close>\<close>

text \<open>
  The loop \<^verbatim>\<open>while state == GoalStatus.PENDING\<close>: each round reads the state, sleeps
  (the sleep shows only in the next reading of the clock), reads the clock and, when
  the difference to \<open>t0\<close> it computes is more than 10, cancels the goal and raises.
  The result is the state the loop ends with, or the error.
\<close>

function regulate_ee_poll :: "real \<Rightarrow> GoalStatus \<Rightarrow> world \<Rightarrow> ((error + GoalStatus) \<times> world) option"
  where
  "regulate_ee_poll t0 state w =
     (if state = PENDING then
        (case get_state w of
           None \<Rightarrow> None
         | Some (state', w1) \<Rightarrow>
             (case time_time w1 of
                None \<Rightarrow> None
              | Some (t, w2) \<Rightarrow>
                  if float_sub t t0 > 10
                  then Some (Inl (RuntimeError ''Timeout!''), cancel_goal w2)
                  else regulate_ee_poll t0 state' w2))
      else Some (Inr state, w))"
  by pat_completeness auto
termination
  by (relation "measure (\<lambda>(t0, state, w). length (states w))")
     (auto simp: get_state_def time_time_def split: list.splits)

definition regulate_ee ::
  "real list list \<Rightarrow> 'a list option \<Rightarrow> 'b list option \<Rightarrow> real \<Rightarrow> real \<Rightarrow> world
   \<Rightarrow> ((error + unit) \<times> world) option" where
  "regulate_ee target_transform stiffness0 damping0 force_bound torque_bound w =
     (case wait_for_server 3 w of
        (False, w1) \<Rightarrow> Some (Inl (RuntimeError ''Action server connection time out!''), w1)
      | (True, w1) \<Rightarrow>
          (case fill_in_config fresh_config target_transform stiffness0 damping0
                  force_bound torque_bound of
             Inl e \<Rightarrow> Some (Inl e, w1)
           | Inr goal \<Rightarrow>
               (case get_state (send_goal goal w1) of
                  None \<Rightarrow> None
                | Some (state, w2) \<Rightarrow>
                    (case time_time w2 of
                       None \<Rightarrow> None
                     | Some (t0, w3) \<Rightarrow>
                         (case regulate_ee_poll t0 state w3 of
                            None \<Rightarrow> None
                          | Some (Inl e, w4) \<Rightarrow> Some (Inl e, w4)
                          | Some (Inr state', w4) \<Rightarrow>
                              if state' = ABORTED
                              then Some (Inl (RuntimeError
                                            (''Goal aborted! '' @ result_status w4)), w4)
                              else Some (Inr (), w4))))))"

subsection \<open>\<^verbatim>\<open>stop\<close>\<close>

text \<open>
  The loop \<^verbatim>\<open>while not self.is_idle()\<close>: each round asks \<^verbatim>\<open>is_idle()\<close> first and
  ends normally when it is true; otherwise it sleeps, reads the clock and raises when
  the difference to \<open>t0\<close> it computes is more than 3.
\<close>

function stop_poll :: "real \<Rightarrow> world \<Rightarrow> ((error + unit) \<times> world) option" where
  "stop_poll t0 w =
     (case is_idle w of
        None \<Rightarrow> None
      | Some (idle, w1) \<Rightarrow>
          if idle then Some (Inr (), w1)
          else
            (case time_time w1 of
               None \<Rightarrow> None
             | Some (t, w2) \<Rightarrow>
                 if float_sub t t0 > 3 then Some (Inl (RuntimeError ''Stop timeout!''), w2)
                 else stop_poll t0 w2))"
  by pat_completeness auto
termination
  by (relation "measure (\<lambda>(t0, w). length (states w))")
     (auto simp: is_idle_def get_state_def time_time_def split: list.splits)

definition stop :: "world \<Rightarrow> ((error + unit) \<times> world) option" where
  "stop w =
     (case is_idle w of
        None \<Rightarrow> None
      | Some (idle, w1) \<Rightarrow>
          if idle then Some (Inr (), w1)
          else
            (case time_time (cancel_goal w1) of
               None \<Rightarrow> None
             | Some (t0, w2) \<Rightarrow> stop_poll t0 w2))"

subsection \<open>Sample inputs\<close>

text \<open>
  A transform and a world in which nothing has been sent yet, for evaluating the
  methods on concrete runs.
\<close>

definition identity_transform :: "real list list" where
  "identity_transform = [[1, 0, 0, 0], [0, 1, 0, 0], [0, 0, 1, 0], [0, 0, 0, 1]]"

definition quiet_world :: "bool \<Rightarrow> GoalStatus list \<Rightarrow> real list \<Rightarrow> world" where
  "quiet_world up ss ts =
     \<lparr>server_up = up, states = ss, clock = ts, result_status = ''controller fault'',
      o_T_ee = [1, 2, 3, 4, 5, 6, 7, 8, 9, 10, 11, 12, 13, 14, 15, 16], events = []\<rparr>"

section \<open>Properties\<close>

text \<open>The two loops are unfolded one round at a time, on demand.\<close>

declare regulate_ee_poll.simps [simp del] stop_poll.simps [simp del]

subsection \<open>Rounding\<close>

lemma round_even_bounds: "\<lfloor>q\<rfloor> \<le> round_even q \<and> round_even q \<le> \<lceil>q\<rceil>"
proof -
  have "\<lceil>q\<rceil> = \<lfloor>q\<rfloor> + 1" if "q - of_int \<lfloor>q\<rfloor> \<ge> 1 / 2"
  proof -
    from that have "of_int \<lfloor>q\<rfloor> < q" by linarith
    then show ?thesis by linarith
  qed
  moreover have "\<lfloor>q\<rfloor> \<le> \<lceil>q\<rceil>" by linarith
  ultimately show ?thesis
    by (auto simp: round_even_def Let_def)
qed

lemma binade_le: "0 < x \<Longrightarrow> 2 powi (binade x) \<le> x"
proof (cases "1 \<le> x")
  case True
  then have pos: "0 < \<lfloor>x\<rfloor>" by linarith
  let ?b = "bitlen \<lfloor>x\<rfloor>"
  from pos have "?b \<noteq> 0" by (simp add: bitlen_eq_zero_iff)
  with bitlen_nonneg [of "\<lfloor>x\<rfloor>"] have b: "0 \<le> ?b - 1" by linarith
  from bitlen_bounds [OF pos] have "2 ^ nat (?b - 1) \<le> \<lfloor>x\<rfloor>" by simp
  then have "(of_int (2 ^ nat (?b - 1)) :: real) \<le> of_int \<lfloor>x\<rfloor>"
    by (simp only: of_int_le_iff)
  then have "(2::real) ^ nat (?b - 1) \<le> of_int \<lfloor>x\<rfloor>" by simp
  also have "\<dots> \<le> x" by linarith
  finally have "(2::real) ^ nat (?b - 1) \<le> x" .
  with b True show ?thesis
    by (simp add: binade_def power_int_def)
next
  case False
  assume x: "0 < x"
  let ?c = "\<lceil>1 / x\<rceil>"
  let ?m = "bitlen (?c - 1)"
  from False x have y: "1 < 1 / x" by simp
  then have pos: "0 < ?c - 1" by linarith
  then have m: "0 \<le> ?m" by (simp add: bitlen_nonneg)
  from bitlen_bounds [OF pos] have "?c - 1 < 2 ^ nat ?m" by simp
  then have "?c \<le> 2 ^ nat ?m" by simp
  then have "(of_int ?c :: real) \<le> of_int (2 ^ nat ?m)"
    by (simp only: of_int_le_iff)
  then have "(of_int ?c :: real) \<le> 2 ^ nat ?m" by simp
  moreover have "1 / x \<le> of_int ?c" by linarith
  ultimately have "1 / x \<le> 2 ^ nat ?m" by linarith
  then have le: "inverse (2 ^ nat ?m) \<le> x"
    using x by (simp add: field_simps)
  have "(2::real) powi (- ?m) = inverse (2 powi ?m)"
    by (rule power_int_minus)
  also have "\<dots> = inverse (2 ^ nat ?m)"
    using m by (simp add: power_int_def)
  finally have "(2::real) powi (- ?m) \<le> x" using le by simp
  with False show ?thesis
    by (simp add: binade_def)
qed

lemma binade_small:
  assumes "0 < x" and "x < 2 ^ 53"
  shows "binade x \<le> 52"
proof (rule ccontr)
  assume "\<not> binade x \<le> 52"
  then have "53 \<le> binade x" by simp
  then have "(2::real) powi 53 \<le> 2 powi (binade x)"
    by (intro power_int_increasing) simp_all
  also have "\<dots> \<le> x" using assms(1) by (rule binade_le)
  finally show False using assms(2) by simp
qed

text \<open>Below \<open>2 ^ 53\<close> the spacing of the doubles divides 1: every integer is a multiple.\<close>

lemma ulp_divides_one:
  assumes "e \<le> 52"
  shows "\<exists>K::int. 0 < K \<and> of_int K * (2 powi (e - 52) :: real) = 1"
proof -
  have "(2::real) powi (e - 52) = 2 powi (- (52 - e))" by simp
  also have "\<dots> = inverse (2 powi (52 - e))"
    by (rule power_int_minus)
  also have "\<dots> = inverse (2 ^ nat (52 - e))"
    using assms by (simp add: power_int_def)
  finally have "of_int (2 ^ nat (52 - e)) * (2 powi (e - 52) :: real) = 1"
    by simp
  moreover have "(0::int) < 2 ^ nat (52 - e)" by simp
  ultimately show ?thesis by blast
qed

lemma round_double_le_int:
  assumes "x \<le> of_int N" and "0 \<le> N" and "N < 2 ^ 53"
  shows "round_double x \<le> of_int N"
proof -
  consider "x = 0" | "x < 0" | "0 < x" by linarith
  then show ?thesis
  proof cases
    case 1
    with assms(2) show ?thesis by (simp add: round_double_def)
  next
    case 2
    let ?u = "2 powi (max (binade \<bar>x\<bar>) (- 1022) - 52) :: real"
    have u: "0 < ?u" by (simp add: power_int_def)
    with 2 have "x / ?u < 0" by (simp add: field_simps)
    then have "\<lceil>x / ?u\<rceil> \<le> 0" by linarith
    with round_even_bounds [of "x / ?u"] have "round_even (x / ?u) \<le> 0" by linarith
    then have "(of_int (round_even (x / ?u)) :: real) \<le> 0" by simp
    then have "of_int (round_even (x / ?u)) * ?u \<le> 0"
      using u by (simp add: mult_le_0_iff)
    moreover have "(0::real) \<le> of_int N" using assms(2) by simp
    ultimately have "of_int (round_even (x / ?u)) * ?u \<le> of_int N" by linarith
    with 2 show ?thesis
      by (simp add: round_double_def Let_def)
  next
    case 3
    let ?e = "max (binade \<bar>x\<bar>) (- 1022)"
    let ?u = "2 powi (?e - 52) :: real"
    let ?r = "of_int (round_even (x / ?u)) :: real"
    have u: "0 < ?u" by (simp add: power_int_def)
    from assms(3) have "(of_int N :: real) < of_int (2 ^ 53)"
      by (simp only: of_int_less_iff)
    with assms(1) have "x < 2 ^ 53" by simp
    with 3 have "binade \<bar>x\<bar> \<le> 52" by (simp add: binade_small)
    then have "?e \<le> 52" by simp
    from ulp_divides_one [OF this] obtain K :: int where K: "0 < K" "of_int K * ?u = 1"
      by blast
    then have inv: "x / ?u = x * of_int K" using u by (simp add: field_simps)
    have "x * of_int K \<le> of_int N * of_int K"
      using assms(1) K(1) by (simp add: mult_right_mono)
    with inv have "x / ?u \<le> of_int (N * K)" by simp
    then have "\<lceil>x / ?u\<rceil> \<le> N * K" by (simp only: ceiling_le_iff)
    with round_even_bounds [of "x / ?u"] have "round_even (x / ?u) \<le> N * K" by linarith
    then have "?r \<le> of_int (N * K)"
      by (simp only: of_int_le_iff)
    then have "?r * ?u \<le> of_int (N * K) * ?u"
      using u by (simp only: mult_le_cancel_right_pos)
    also have "\<dots> = of_int N * (of_int K * ?u)" by simp
    also have "\<dots> = of_int N" by (simp only: K(2) mult_1_right)
    finally show ?thesis
      using 3 by (simp add: round_double_def Let_def)
  qed
qed

lemma round_double_ge_int:
  assumes "of_int N \<le> x" and "0 < N" and "x < 2 ^ 53"
  shows "of_int N \<le> round_double x"
proof -
  let ?e = "max (binade \<bar>x\<bar>) (- 1022)"
  let ?u = "2 powi (?e - 52) :: real"
  let ?r = "of_int (round_even (x / ?u)) :: real"
  have "(0::real) < of_int N" using assms(2) by simp
  with assms(1) have x: "0 < x" by linarith
  have u: "0 < ?u" by (simp add: power_int_def)
  from x assms(3) have "binade \<bar>x\<bar> \<le> 52" by (simp add: binade_small)
  then have "?e \<le> 52" by simp
  from ulp_divides_one [OF this] obtain K :: int where K: "0 < K" "of_int K * ?u = 1"
    by blast
  then have inv: "x / ?u = x * of_int K" using u by (simp add: field_simps)
  have "of_int N * of_int K \<le> x * of_int K"
    using assms(1) K(1) by (simp add: mult_right_mono)
  with inv have "of_int (N * K) \<le> x / ?u" by simp
  then have "N * K \<le> \<lfloor>x / ?u\<rfloor>" by (simp only: le_floor_iff)
  with round_even_bounds [of "x / ?u"] have "N * K \<le> round_even (x / ?u)" by linarith
  then have le: "of_int (N * K) \<le> ?r"
    by (simp only: of_int_le_iff)
  have "of_int N = of_int N * (of_int K * ?u)" by (simp only: K(2) mult_1_right)
  also have "\<dots> = of_int (N * K) * ?u" by simp
  also have "\<dots> \<le> ?r * ?u"
    using u le by (simp only: mult_le_cancel_right_pos)
  finally show ?thesis
    using x by (simp add: round_double_def Let_def)
qed

lemma binade_gt: "0 < x \<Longrightarrow> x < 2 powi (binade x + 1)"
proof (cases "1 \<le> x")
  case True
  then have pos: "0 < \<lfloor>x\<rfloor>" by linarith
  let ?b = "bitlen \<lfloor>x\<rfloor>"
  have b: "0 \<le> ?b" by (rule bitlen_nonneg)
  from bitlen_bounds [OF pos] have "\<lfloor>x\<rfloor> + 1 \<le> 2 ^ nat ?b" by simp
  then have "(of_int (\<lfloor>x\<rfloor> + 1) :: real) \<le> of_int (2 ^ nat ?b)"
    by (simp only: of_int_le_iff)
  then have "of_int \<lfloor>x\<rfloor> + 1 \<le> (2::real) ^ nat ?b" by simp
  moreover have "x < of_int \<lfloor>x\<rfloor> + 1" by linarith
  ultimately have "x < 2 ^ nat ?b" by linarith
  with b True show ?thesis
    by (simp add: binade_def power_int_def)
next
  case False
  assume x: "0 < x"
  let ?c = "\<lceil>1 / x\<rceil>"
  let ?m = "bitlen (?c - 1)"
  from False x have y: "1 < 1 / x" by simp
  then have pos: "0 < ?c - 1" by linarith
  then have "?m \<noteq> 0" by (simp add: bitlen_eq_zero_iff)
  with bitlen_nonneg [of "?c - 1"] have m: "0 \<le> ?m - 1" by linarith
  from bitlen_bounds [OF pos] have "2 ^ nat (?m - 1) \<le> ?c - 1" by simp
  then have "(of_int (2 ^ nat (?m - 1)) :: real) \<le> of_int (?c - 1)"
    by (simp only: of_int_le_iff)
  then have "(2::real) ^ nat (?m - 1) \<le> of_int ?c - 1" by simp
  moreover have "of_int ?c - 1 < 1 / x" by linarith
  ultimately have "2 ^ nat (?m - 1) < 1 / x" by linarith
  then have lt: "x < inverse (2 ^ nat (?m - 1))"
    using x by (simp add: field_simps)
  have "(2::real) powi (- ?m + 1) = 2 powi (- (?m - 1))" by simp
  also have "\<dots> = inverse (2 powi (?m - 1))"
    by (rule power_int_minus)
  also have "\<dots> = inverse (2 ^ nat (?m - 1))"
    using m by (simp add: power_int_def)
  finally have "x < 2 powi (- ?m + 1)" using lt by simp
  with False show ?thesis
    by (simp add: binade_def)
qed

lemma binade_unique:
  assumes "2 powi e \<le> x" and "x < 2 powi (e + 1)"
  shows "binade x = e"
proof -
  have x: "0 < x"
    using assms(1) by (rule less_le_trans [rotated]) (simp add: power_int_def)
  have "\<not> e + 1 \<le> binade x"
  proof
    assume "e + 1 \<le> binade x"
    then have "(2::real) powi (e + 1) \<le> 2 powi (binade x)"
      by (intro power_int_increasing) simp_all
    with binade_le [OF x] assms(2) show False by linarith
  qed
  moreover have "\<not> binade x + 1 \<le> e"
  proof
    assume "binade x + 1 \<le> e"
    then have "(2::real) powi (binade x + 1) \<le> 2 powi e"
      by (intro power_int_increasing) simp_all
    with binade_gt [OF x] assms(1) show False by linarith
  qed
  ultimately show ?thesis by linarith
qed

lemma round_double_ge_binade:
  assumes "0 < x" and "- 1022 \<le> binade x"
  shows "2 powi (binade x) \<le> round_double x"
proof -
  let ?e = "binade x"
  let ?u = "2 powi (?e - 52) :: real"
  have u: "0 < ?u" by (simp add: power_int_def)
  have split: "(2::real) powi ?e = 2 ^ 52 * ?u"
  proof -
    have "(2::real) powi ?e = 2 powi (52 + (?e - 52))" by simp
    also have "\<dots> = 2 powi 52 * ?u" by (subst power_int_add) simp_all
    finally show ?thesis by simp
  qed
  from binade_le [OF assms(1)] split have "2 ^ 52 * ?u \<le> x" by simp
  then have "(2::real) ^ 52 \<le> x / ?u" using u by (simp add: field_simps)
  then have "(of_int (2 ^ 52) :: real) \<le> x / ?u" by simp
  then have "2 ^ 52 \<le> \<lfloor>x / ?u\<rfloor>" by (simp only: le_floor_iff)
  with round_even_bounds [of "x / ?u"] have "2 ^ 52 \<le> round_even (x / ?u)" by linarith
  then have "(of_int (2 ^ 52) :: real) \<le> of_int (round_even (x / ?u))"
    by (simp only: of_int_le_iff)
  then have "of_int (2 ^ 52) * ?u \<le> of_int (round_even (x / ?u)) * ?u"
    using u by (simp only: mult_le_cancel_right_pos)
  with split have "2 powi ?e \<le> of_int (round_even (x / ?u)) * ?u" by simp
  moreover have "max ?e (- 1022) = ?e" using assms(2) by simp
  ultimately show ?thesis
    using assms(1) by (simp add: round_double_def Let_def)
qed

text \<open>
  Rounding against a double \<open>N\<close> whose last bit is 0: the result is above \<open>N\<close>
  exactly when the number is more than half a spacing above \<open>N\<close>.
\<close>

lemma round_double_gt_iff:
  fixes N M e :: int
  assumes e: "- 1022 \<le> e" "e \<le> 52"
    and N: "of_int N = of_int M * (2 powi (e - 52) :: real)"
    and M: "2 ^ 52 \<le> M" "M < 2 ^ 53" "even M"
  shows "round_double x > of_int N \<longleftrightarrow> x > of_int N + 2 powi (e - 53)"
proof -
  let ?u = "2 powi (e - 52) :: real"
  let ?h = "2 powi (e - 53) :: real"
  have u: "0 < ?u" and h: "0 < ?h" by (simp_all add: power_int_def)
  have uh: "?u = 2 * ?h"
  proof -
    have "?u = 2 powi (1 + (e - 53))" by simp
    also have "\<dots> = 2 powi 1 * ?h" by (subst power_int_add) simp_all
    finally show ?thesis by simp
  qed
  have lo: "(2::real) powi e = 2 ^ 52 * ?u"
  proof -
    have "(2::real) powi e = 2 powi (52 + (e - 52))" by simp
    also have "\<dots> = 2 powi 52 * ?u" by (subst power_int_add) simp_all
    finally show ?thesis by simp
  qed
  have hi: "(2::real) powi (e + 1) = 2 ^ 53 * ?u"
  proof -
    have "(2::real) powi (e + 1) = 2 powi (53 + (e - 52))"
      by (rule arg_cong [where f = "\<lambda>k. 2 powi k"]) simp
    also have "\<dots> = 2 powi 53 * ?u" by (subst power_int_add) simp_all
    finally show ?thesis by simp
  qed
  have Mlo: "(2::real) ^ 52 \<le> of_int M"
  proof -
    from M(1) have "(of_int (2 ^ 52) :: real) \<le> of_int M" by (simp only: of_int_le_iff)
    then show ?thesis by simp
  qed
  have Mhi: "of_int M + 1 \<le> (2::real) ^ 53"
  proof -
    from M(2) have "M + 1 \<le> 2 ^ 53" by simp
    then have "(of_int (M + 1) :: real) \<le> of_int (2 ^ 53)" by (simp only: of_int_le_iff)
    then show ?thesis by simp
  qed
  have Nlo: "2 powi e \<le> (of_int N :: real)"
    using Mlo u by (simp add: N lo mult_right_mono)
  have Nhi: "of_int N + ?u \<le> 2 powi (e + 1)"
  proof -
    have "of_int N + ?u = (of_int M + 1) * ?u" by (simp add: N algebra_simps)
    also have "\<dots> \<le> 2 ^ 53 * ?u" using Mhi u by (simp only: mult_le_cancel_right_pos)
    finally show ?thesis by (simp add: hi)
  qed
  have Npos: "0 < N"
  proof -
    have "(0::real) < 2 powi e" by (simp add: power_int_def)
    with Nlo have "(0::real) < of_int N" by linarith
    then show ?thesis by simp
  qed
  have Nsmall: "N < 2 ^ 53"
  proof -
    have "(2::real) powi (e + 1) \<le> 2 powi 53"
      using e(2) by (intro power_int_increasing) simp_all
    then have "(2::real) powi (e + 1) \<le> 2 ^ 53" by simp
    with Nhi u have "(of_int N :: real) < 2 ^ 53" by linarith
    then have "(of_int N :: real) < of_int (2 ^ 53)" by simp
    then show ?thesis by (simp only: of_int_less_iff)
  qed
  show ?thesis
  proof
    assume gt: "round_double x > of_int N"
    show "x > of_int N + ?h"
    proof (rule ccontr)
      assume "\<not> x > of_int N + ?h"
      then have le: "x \<le> of_int N + ?h" by simp
      have "round_double x \<le> of_int N"
      proof (cases "x \<le> of_int N")
        case True
        then show ?thesis using Npos Nsmall by (intro round_double_le_int) simp_all
      next
        case False
        then have xN: "of_int N < x" by simp
        with Npos have x: "0 < x" by (smt (verit) of_int_pos)
        have "x < 2 powi (e + 1)" using le Nhi uh h by linarith
        with Nlo xN have be: "binade x = e" by (intro binade_unique) simp_all
        have q1: "of_int M < x / ?u" using xN u by (simp add: N field_simps)
        have q2: "x / ?u \<le> of_int M + 1 / 2"
        proof -
          have "x \<le> (of_int M + 1 / 2) * ?u"
            using le by (simp add: N uh algebra_simps)
          then show ?thesis using u by (simp add: field_simps)
        qed
        from q1 q2 have fl: "\<lfloor>x / ?u\<rfloor> = M" by linarith
        from q2 have "x / ?u - of_int M \<le> 1 / 2" by linarith
        with fl M(3) have "round_even (x / ?u) = M"
          by (auto simp: round_even_def Let_def)
        moreover have "max (binade \<bar>x\<bar>) (- 1022) = e" using x be e(1) by simp
        ultimately have "round_double x = of_int M * ?u"
          using x by (simp add: round_double_def Let_def)
        then show ?thesis by (simp add: N)
      qed
      with gt show False by simp
    qed
  next
    assume gt: "x > of_int N + ?h"
    with Npos h have x: "0 < x" by (smt (verit) of_int_pos)
    show "round_double x > of_int N"
    proof (cases "x < 2 powi (e + 1)")
      case True
      from gt h Nlo have "2 powi e \<le> x" by linarith
      with True have be: "binade x = e" by (intro binade_unique)
      have q: "of_int M + 1 / 2 < x / ?u"
      proof -
        have "(of_int M + 1 / 2) * ?u < x"
          using gt by (simp add: N uh algebra_simps)
        then show ?thesis using u by (simp add: field_simps)
      qed
      then have fl: "M \<le> \<lfloor>x / ?u\<rfloor>" by linarith
      have "M + 1 \<le> round_even (x / ?u)"
      proof (cases "\<lfloor>x / ?u\<rfloor> = M")
        case True
        with q have "1 / 2 < x / ?u - of_int \<lfloor>x / ?u\<rfloor>" by linarith
        with True show ?thesis by (simp add: round_even_def Let_def)
      next
        case False
        with fl have "M + 1 \<le> \<lfloor>x / ?u\<rfloor>" by simp
        with round_even_bounds [of "x / ?u"] show ?thesis by linarith
      qed
      then have r: "(of_int (M + 1) :: real) \<le> of_int (round_even (x / ?u))"
        by (simp only: of_int_le_iff)
      have "of_int N + ?u = of_int (M + 1) * ?u" by (simp add: N algebra_simps)
      also have "\<dots> \<le> of_int (round_even (x / ?u)) * ?u"
        using u r by (simp only: mult_le_cancel_right_pos)
      finally have ge: "of_int N + ?u \<le> of_int (round_even (x / ?u)) * ?u" .
      have "round_double x = of_int (round_even (x / ?u)) * ?u"
        using x be e(1) by (simp add: round_double_def Let_def)
      with ge u show ?thesis by linarith
    next
      case False
      then have big: "2 powi (e + 1) \<le> x" by simp
      have "\<not> binade x + 1 \<le> e + 1"
      proof
        assume "binade x + 1 \<le> e + 1"
        then have "(2::real) powi (binade x + 1) \<le> 2 powi (e + 1)"
          by (intro power_int_increasing) simp_all
        with binade_gt [OF x] big show False by linarith
      qed
      then have be: "e + 1 \<le> binade x" by simp
      then have "(2::real) powi (e + 1) \<le> 2 powi (binade x)"
        by (intro power_int_increasing) simp_all
      also have "\<dots> \<le> round_double x"
        using x be e(1) by (intro round_double_ge_binade) simp_all
      finally show ?thesis using Nhi u by linarith
    qed
  qed
qed

lemma float_sub_within_10:
  "t - t0 \<le> 10 \<Longrightarrow> \<not> float_sub t t0 > 10"
  using round_double_le_int [of "t - t0" 10] by (simp add: float_sub_def)

lemma float_sub_within_3:
  "t - t0 \<le> 3 \<Longrightarrow> \<not> float_sub t t0 > 3"
  using round_double_le_int [of "t - t0" 3] by (simp add: float_sub_def)

text \<open>
  The two deadline tests in exact terms: the difference computed is more than 10
  (more than 3) exactly when the readings differ by more than \<open>10 + 2\<^sup>-\<^sup>5\<^sup>0\<close> (more than
  \<open>3 + 2\<^sup>-\<^sup>5\<^sup>2\<close>).
\<close>

lemma float_sub_exceeds_10_iff: "float_sub t t0 > 10 \<longleftrightarrow> t - t0 > 10 + 1 / 2 ^ 50"
proof -
  have "round_double (t - t0) > of_int 10 \<longleftrightarrow> t - t0 > of_int 10 + 2 powi (3 - 53)"
    by (rule round_double_gt_iff [where M = "5 * 2 ^ 50"]) (simp_all add: power_int_def power_one_over)
  then show ?thesis
    by (simp add: float_sub_def power_int_def power_one_over)
qed

lemma float_sub_exceeds_3_iff: "float_sub t t0 > 3 \<longleftrightarrow> t - t0 > 3 + 1 / 2 ^ 52"
proof -
  have "round_double (t - t0) > of_int 3 \<longleftrightarrow> t - t0 > of_int 3 + 2 powi (1 - 53)"
    by (rule round_double_gt_iff [where M = "3 * 2 ^ 51"]) (simp_all add: power_int_def power_one_over)
  then show ?thesis
    by (simp add: float_sub_def power_int_def power_one_over)
qed

text \<open>
  The readings 0.3 and 10.3, and 0.1 and 3.1, as the doubles they are: the exact
  differences are above 10 and above 3, the differences computed are 10 and 3.
\<close>

lemma float_sub_rounds_to_10:
  "float_sub (2899192260119757 / 281474976710656) (5404319552844595 / 18014398509481984) = 10
   \<and> (2899192260119757 / 281474976710656 :: real) - 5404319552844595 / 18014398509481984 > 10"
  by code_simp

lemma float_sub_rounds_to_3:
  "float_sub (6980579422424269 / 2251799813685248) (3602879701896397 / 36028797018963968) = 3
   \<and> (6980579422424269 / 2251799813685248 :: real) - 3602879701896397 / 36028797018963968 > 3"
  by code_simp

subsection \<open>Building and sending the config\<close>

lemma sent_configs_append: "sent_configs (xs @ ys) = sent_configs xs @ sent_configs ys"
  by (induction xs rule: sent_configs.induct) simp_all

lemma get_state_events: "get_state w = Some (s, w') \<Longrightarrow> events w' = events w"
  by (auto simp: get_state_def split: list.splits)

lemma time_time_events: "time_time w = Some (t, w') \<Longrightarrow> events w' = events w"
  by (auto simp: time_time_def split: list.splits)

lemma fill_in_config_supplied:
  "length s = 6 \<Longrightarrow>
   fill_in_config cfg T (Some s) (Some d) fb tb =
     Inr \<lparr>o_T_ee_desired = concat T, stiffness = Some [150, 150, 150, 10, 10, 10],
          damping = Some [30, 30, 30, 8, 8, 8],
          ee_control_force_bound = fb, ee_control_torque_bound = tb\<rparr>"
  by (cases cfg) (simp add: fill_in_config_def)

lemma fill_in_config_stiffness_length:
  "length s \<noteq> 6 \<Longrightarrow>
   fill_in_config cfg T (Some s) d0 fb tb =
     Inl (AssertionError ''Stiffness dimension does not match'')"
  by (simp add: fill_in_config_def)

lemma fill_in_config_unset_stiffness:
  "fill_in_config cfg T None (Some d) fb tb = Inl TypeError"
  by (simp add: fill_in_config_def)

lemma fill_in_config_gains:
  "fill_in_config cfg T s0 d0 fb tb = Inr c \<Longrightarrow>
   stiffness c = (case s0 of None \<Rightarrow> None | Some s \<Rightarrow> Some [150, 150, 150, 10, 10, 10])
   \<and> damping c = (case d0 of None \<Rightarrow> None | Some d \<Rightarrow> Some [30, 30, 30, 8, 8, 8])"
  by (auto simp: fill_in_config_def split: option.splits if_splits)

lemma regulate_ee_poll_events:
  "regulate_ee_poll t0 st w = Some (r, w') \<Longrightarrow>
   events w' = events w @ (case r of Inl e \<Rightarrow> [CancelGoal] | Inr s \<Rightarrow> [])
   \<and> (case r of Inl e \<Rightarrow> e = RuntimeError ''Timeout!'' | Inr s \<Rightarrow> True)"
proof (induction t0 st w rule: regulate_ee_poll.induct)
  case (1 t0 state w)
  show ?case
  proof (cases "state = PENDING")
    case False
    with "1.prems" show ?thesis
      by (auto simp: regulate_ee_poll.simps)
  next
    case True
    from "1.prems" True obtain s1 w1 t w2
      where gs: "get_state w = Some (s1, w1)" and tt: "time_time w1 = Some (t, w2)"
        and rest: "(if float_sub t t0 > 10
                    then Some (Inl (RuntimeError ''Timeout!''), cancel_goal w2)
                    else regulate_ee_poll t0 s1 w2) = Some (r, w')"
      by (subst (asm) regulate_ee_poll.simps) (auto split: option.splits)
    have ev: "events w2 = events w"
      using get_state_events [OF gs] time_time_events [OF tt] by simp
    show ?thesis
    proof (cases "float_sub t t0 > 10")
      case True
      with rest ev show ?thesis
        by (auto simp: cancel_goal_def emit_def)
    next
      case False
      with rest have "regulate_ee_poll t0 s1 w2 = Some (r, w')" by simp
      from "1.IH" [OF \<open>state = PENDING\<close> gs refl tt refl False this] ev
      show ?thesis by simp
    qed
  qed
qed

lemma regulate_ee_events:
  assumes "regulate_ee T s0 d0 fb tb w = Some (r, w')"
    and "server_up w"
    and "fill_in_config fresh_config T s0 d0 fb tb = Inr g"
  shows "events w' = events w @ WaitForServer 3 # SendGoal g #
           (if r = Inl (RuntimeError ''Timeout!'') then [CancelGoal] else [])"
proof -
  let ?w1 = "send_goal g (emit (WaitForServer 3) w)"
  from assms obtain st w2 t0 w3 pr w4
    where gs: "get_state ?w1 = Some (st, w2)" and tt: "time_time w2 = Some (t0, w3)"
      and poll: "regulate_ee_poll t0 st w3 = Some (pr, w4)"
      and res: "(case pr of Inl e \<Rightarrow> Some (Inl e, w4)
                 | Inr st' \<Rightarrow> if st' = ABORTED
                     then Some (Inl (RuntimeError (''Goal aborted! '' @ result_status w4)), w4)
                     else Some (Inr (), w4)) = Some (r, w')"
    by (auto simp: regulate_ee_def wait_for_server_def split: option.splits sum.splits)
  have ev3: "events w3 = events w @ [WaitForServer 3, SendGoal g]"
    using get_state_events [OF gs] time_time_events [OF tt]
    by (simp add: send_goal_def emit_def)
  from regulate_ee_poll_events [OF poll] ev3 res show ?thesis
    by (auto split: sum.splits if_splits)
qed

lemma regulate_ee_no_server:
  "\<not> server_up w \<Longrightarrow>
   regulate_ee T s0 d0 fb tb w =
     Some (Inl (RuntimeError ''Action server connection time out!''), emit (WaitForServer 3) w)"
  by (simp add: regulate_ee_def wait_for_server_def)

lemma regulate_ee_config_error:
  "server_up w \<Longrightarrow> fill_in_config fresh_config T s0 d0 fb tb = Inl e \<Longrightarrow>
   regulate_ee T s0 d0 fb tb w = Some (Inl e, emit (WaitForServer 3) w)"
  by (simp add: regulate_ee_def wait_for_server_def)

lemma set_ee_config_error:
  "fill_in_config (fresh_config\<lparr>o_T_ee_desired := concat T\<rparr>) T s0 d0 fb tb = Inl e \<Longrightarrow>
   set_ee T s0 d0 fb tb w = (Inl e, w)"
  by (simp add: set_ee_def)

lemma set_ee_sends:
  "fill_in_config (fresh_config\<lparr>o_T_ee_desired := concat T\<rparr>) T s0 d0 fb tb = Inr c \<Longrightarrow>
   set_ee T s0 d0 fb tb w = (Inr (), emit (CallConfig c) w)"
  by (simp add: set_ee_def)

lemma set_ee_ok:
  "set_ee T s0 d0 fb tb w = (Inr (), w') \<Longrightarrow>
   \<exists>c. fill_in_config (fresh_config\<lparr>o_T_ee_desired := concat T\<rparr>) T s0 d0 fb tb = Inr c
       \<and> w' = emit (CallConfig c) w"
  by (auto simp: set_ee_def split: sum.splits)

lemma regulate_ee_ok:
  "regulate_ee T s0 d0 fb tb w = Some (Inr (), w') \<Longrightarrow>
   server_up w \<and> (\<exists>g. fill_in_config fresh_config T s0 d0 fb tb = Inr g)"
  by (cases "server_up w"; cases "fill_in_config fresh_config T s0 d0 fb tb")
     (simp_all add: regulate_ee_no_server regulate_ee_config_error)

text \<open>
  A stiffness sequence of the wrong length is refused before anything is sent;
  \<^verbatim>\<open>regulate_ee\<close> gets to the check once its wait for the server has succeeded.
\<close>

lemma short_stiffness_rejected:
  assumes "length s \<noteq> 6"
  shows "set_ee T (Some s) d0 fb tb w
           = (Inl (AssertionError ''Stiffness dimension does not match''), w)"
    and "server_up w \<Longrightarrow>
         regulate_ee T (Some s) d0 fb tb w
           = Some (Inl (AssertionError ''Stiffness dimension does not match''),
                   emit (WaitForServer 3) w)"
  using assms
  by (simp_all add: set_ee_config_error regulate_ee_config_error
      fill_in_config_stiffness_length)

text \<open>
  C1. A stiffness sequence of length other than 6, or a damping sequence of length
  other than 6, makes \<^verbatim>\<open>set_ee\<close> and \<^verbatim>\<open>regulate_ee\<close> fail with a validation error
  before anything is sent. The code does so for the stiffness only
  (\<open>short_stiffness_rejected\<close>): its second \<^verbatim>\<open>assert\<close>, whose message is
  "Damping dimension does not match", measures the stiffness again. A damping
  sequence of length 3 beside a stiffness sequence of length 6 is accepted, and the
  config goes out with the fixed gains.
\<close>

theorem short_damping_is_sent:
  "set_ee identity_transform (Some [1, 2, 3, 4, 5, 6 :: int]) (Some [1, 2, 3 :: int]) 50 4
       (quiet_world True [] [])
     = (Inr (),
        emit (CallConfig
               \<lparr>o_T_ee_desired = concat identity_transform,
                stiffness = Some [150, 150, 150, 10, 10, 10],
                damping = Some [30, 30, 30, 8, 8, 8],
                ee_control_force_bound = 50, ee_control_torque_bound = 4\<rparr>)
          (quiet_world True [] []))
   \<and> regulate_ee identity_transform (Some [1, 2, 3, 4, 5, 6 :: int]) (Some [1, 2, 3 :: int]) 50 4
       (quiet_world True [ACTIVE] [0])
     = Some (Inr (),
        (quiet_world True [] [])
          \<lparr>events :=
             [WaitForServer 3,
              SendGoal
               \<lparr>o_T_ee_desired = concat identity_transform,
                stiffness = Some [150, 150, 150, 10, 10, 10],
                damping = Some [30, 30, 30, 8, 8, 8],
                ee_control_force_bound = 50, ee_control_torque_bound = 4\<rparr>]\<rparr>)"
  by (simp add: set_ee_def regulate_ee_def fill_in_config_def fresh_config_def
      wait_for_server_def send_goal_def emit_def get_state_def time_time_def
      regulate_ee_poll.simps quiet_world_def)

text \<open>
  C2. When the caller supplies a stiffness sequence of length 6 and a damping
  sequence of length 6, whatever their entries, the config that is sent carries the
  stiffness [150,150,150,10,10,10] and the damping [30,30,30,8,8,8]: \<^verbatim>\<open>set_ee\<close>
  sends exactly that config, and the one config a run of \<^verbatim>\<open>regulate_ee\<close> sends
  (none when the action server is not reached) is that config.
\<close>

theorem supplied_gains_replaced:
  "length s = 6 \<and> length d = 6 \<longrightarrow>
   set_ee T (Some s) (Some d) fb tb w
     = (Inr (),
        emit (CallConfig
               \<lparr>o_T_ee_desired = concat T,
                stiffness = Some [150, 150, 150, 10, 10, 10],
                damping = Some [30, 30, 30, 8, 8, 8],
                ee_control_force_bound = fb, ee_control_torque_bound = tb\<rparr>) w)
   \<and> (regulate_ee T (Some s) (Some d) fb tb w = Some (r, w') \<longrightarrow>
        sent_configs (events w')
          = sent_configs (events w) @
            (if server_up w
             then [\<lparr>o_T_ee_desired = concat T,
                    stiffness = Some [150, 150, 150, 10, 10, 10],
                    damping = Some [30, 30, 30, 8, 8, 8],
                    ee_control_force_bound = fb, ee_control_torque_bound = tb\<rparr>]
             else []))"
proof (intro impI conjI)
  assume len: "length s = 6 \<and> length d = 6"
  let ?c = "\<lparr>o_T_ee_desired = concat T,
              stiffness = Some [150, 150, 150, 10, 10, 10],
              damping = Some [30, 30, 30, 8, 8, 8],
              ee_control_force_bound = fb, ee_control_torque_bound = tb\<rparr>"
  have fill: "fill_in_config cfg T (Some s) (Some d) fb tb = Inr ?c" for cfg
    using len by (simp add: fill_in_config_supplied)
  show "set_ee T (Some s) (Some d) fb tb w = (Inr (), emit (CallConfig ?c) w)"
    by (rule set_ee_sends) (rule fill)
  assume run: "regulate_ee T (Some s) (Some d) fb tb w = Some (r, w')"
  show "sent_configs (events w') = sent_configs (events w) @ (if server_up w then [?c] else [])"
  proof (cases "server_up w")
    case True
    from regulate_ee_events [OF run True fill] True show ?thesis
      by (simp add: sent_configs_append)
  next
    case False
    from run regulate_ee_no_server [OF False, of T "Some s" "Some d" fb tb] False
    show ?thesis
      by (auto simp: emit_def sent_configs_append)
  qed
qed

theorem supplied_gains_replaced_witness:
  "length [9, 9, 9, 9, 9, 9 :: int] = 6 \<and> length [7, 7, 7, 7, 7, 7 :: int] = 6
   \<and> sent_configs (events (snd (set_ee identity_transform (Some [9, 9, 9, 9, 9, 9 :: int])
        (Some [7, 7, 7, 7, 7, 7 :: int]) 50 4 (quiet_world True [] []))))
      = [\<lparr>o_T_ee_desired = concat identity_transform,
           stiffness = Some [150, 150, 150, 10, 10, 10],
           damping = Some [30, 30, 30, 8, 8, 8],
           ee_control_force_bound = 50, ee_control_torque_bound = 4\<rparr>]
   \<and> (\<exists>w'. regulate_ee identity_transform (Some [9, 9, 9, 9, 9, 9 :: int])
              (Some [7, 7, 7, 7, 7, 7 :: int]) 50 4 (quiet_world True [ACTIVE] [0])
            = Some (Inr (), w')
          \<and> sent_configs (events w')
            = [\<lparr>o_T_ee_desired = concat identity_transform,
                 stiffness = Some [150, 150, 150, 10, 10, 10],
                 damping = Some [30, 30, 30, 8, 8, 8],
                 ee_control_force_bound = 50, ee_control_torque_bound = 4\<rparr>])"
proof -
  let ?s = "[9, 9, 9, 9, 9, 9 :: int]" and ?d = "[7, 7, 7, 7, 7, 7 :: int]"
  let ?w = "quiet_world True [ACTIVE] [0]"
  have len: "length ?s = 6 \<and> length ?d = 6" by simp
  obtain w' where run:
    "regulate_ee identity_transform (Some ?s) (Some ?d) 50 4 ?w = Some (Inr (), w')"
    by (simp add: regulate_ee_def fill_in_config_def fresh_config_def
        wait_for_server_def send_goal_def emit_def get_state_def time_time_def
        regulate_ee_poll.simps quiet_world_def)
  from supplied_gains_replaced [of ?s ?d identity_transform 50 4 "quiet_world True [] []"] len
  have "set_ee identity_transform (Some ?s) (Some ?d) 50 4 (quiet_world True [] [])
     = (Inr (),
        emit (CallConfig
               \<lparr>o_T_ee_desired = concat identity_transform,
                stiffness = Some [150, 150, 150, 10, 10, 10],
                damping = Some [30, 30, 30, 8, 8, 8],
                ee_control_force_bound = 50, ee_control_torque_bound = 4\<rparr>)
          (quiet_world True [] []))"
    by blast
  moreover
  from supplied_gains_replaced [of ?s ?d identity_transform 50 4 ?w "Inr ()" w'] len run
  have "sent_configs (events w')
      = sent_configs (events ?w) @
        [\<lparr>o_T_ee_desired = concat identity_transform,
           stiffness = Some [150, 150, 150, 10, 10, 10],
           damping = Some [30, 30, 30, 8, 8, 8],
           ee_control_force_bound = 50, ee_control_torque_bound = 4\<rparr>]"
    by (simp add: quiet_world_def)
  ultimately show ?thesis
    using run by (auto simp: quiet_world_def emit_def)
qed

text \<open>
  C5. When the action server is not reached within the wait of 3, \<^verbatim>\<open>regulate_ee\<close>
  raises the connection-timeout error and submits no goal; whatever a run of
  \<^verbatim>\<open>regulate_ee\<close> does to the endpoints comes after the wait for the server, and it
  does something only when the wait has succeeded.
\<close>

theorem regulate_ee_waits_for_server:
  "(\<not> server_up w \<longrightarrow>
      regulate_ee T s0 d0 fb tb w
        = Some (Inl (RuntimeError ''Action server connection time out!''),
                w\<lparr>events := events w @ [WaitForServer 3]\<rparr>))
   \<and> (regulate_ee T s0 d0 fb tb w = Some (r, w') \<longrightarrow>
        (\<exists>rest. events w' = events w @ WaitForServer 3 # rest
               \<and> (rest \<noteq> [] \<longrightarrow> server_up w)))"
proof (intro conjI impI)
  assume "\<not> server_up w"
  then show "regulate_ee T s0 d0 fb tb w
        = Some (Inl (RuntimeError ''Action server connection time out!''),
                w\<lparr>events := events w @ [WaitForServer 3]\<rparr>)"
    by (simp add: regulate_ee_no_server emit_def)
next
  assume run: "regulate_ee T s0 d0 fb tb w = Some (r, w')"
  show "\<exists>rest. events w' = events w @ WaitForServer 3 # rest \<and> (rest \<noteq> [] \<longrightarrow> server_up w)"
  proof (cases "server_up w")
    case False
    with run have "events w' = events w @ [WaitForServer 3]"
      by (auto simp: regulate_ee_no_server emit_def)
    then show ?thesis by simp
  next
    case True
    show ?thesis
    proof (cases "fill_in_config fresh_config T s0 d0 fb tb")
      case (Inl e)
      with run True have "events w' = events w @ [WaitForServer 3]"
        by (auto simp: regulate_ee_config_error emit_def)
      then show ?thesis by simp
    next
      case (Inr g)
      from regulate_ee_events [OF run True Inr] True show ?thesis by simp
    qed
  qed
qed

theorem regulate_ee_waits_for_server_witness:
  "\<not> server_up (quiet_world False [ACTIVE] [0])
   \<and> regulate_ee identity_transform (None :: int list option) (None :: int list option) 50 4
        (quiet_world False [ACTIVE] [0])
      = Some (Inl (RuntimeError ''Action server connection time out!''),
              (quiet_world False [ACTIVE] [0])\<lparr>events := [WaitForServer 3]\<rparr>)
   \<and> (\<exists>r w' rest.
        regulate_ee identity_transform (None :: int list option) (None :: int list option) 50 4
          (quiet_world True [ACTIVE] [0]) = Some (r, w')
        \<and> events w' = WaitForServer 3 # rest \<and> rest \<noteq> []
        \<and> server_up (quiet_world True [ACTIVE] [0]))"
proof -
  let ?down = "quiet_world False [ACTIVE] [0]" and ?up = "quiet_world True [ACTIVE] [0]"
  have down: "\<not> server_up ?down" by (simp add: quiet_world_def)
  obtain w' where run:
    "regulate_ee identity_transform (None :: int list option) (None :: int list option) 50 4 ?up
       = Some (Inr (), w')" and nonempty: "length (events w') = 2"
    by (simp add: regulate_ee_def fill_in_config_def fresh_config_def
        wait_for_server_def send_goal_def emit_def get_state_def time_time_def
        regulate_ee_poll.simps quiet_world_def)
  from regulate_ee_waits_for_server
         [of ?down identity_transform "None :: int list option" "None :: int list option" 50 4]
       down
  have a: "regulate_ee identity_transform (None :: int list option) (None :: int list option)
             50 4 ?down
           = Some (Inl (RuntimeError ''Action server connection time out!''),
                   ?down\<lparr>events := [WaitForServer 3]\<rparr>)"
    by (simp add: quiet_world_def)
  from regulate_ee_waits_for_server
         [of ?up identity_transform "None :: int list option" "None :: int list option" 50 4
             "Inr ()" w'] run
  obtain rest where rest: "events w' = events ?up @ WaitForServer 3 # rest"
      and up: "rest \<noteq> [] \<longrightarrow> server_up ?up"
    by blast
  from rest nonempty have "rest \<noteq> []" by (auto simp: quiet_world_def)
  with rest up have "events w' = WaitForServer 3 # rest \<and> rest \<noteq> [] \<and> server_up ?up"
    by (simp add: quiet_world_def)
  with run a down show ?thesis by blast
qed

text \<open>
  C9. When damping is supplied, of any length, and stiffness is left unset, the
  call fails with the type error of \<^verbatim>\<open>len(None)\<close> before anything is sent. That is
  so for every call of \<^verbatim>\<open>set_ee\<close>, and for every call of \<^verbatim>\<open>regulate_ee\<close> whose wait
  for the action server has succeeded; \<^verbatim>\<open>regulate_ee\<close> builds the config only after
  that wait, and when the wait fails it raises the connection-timeout error, the
  arguments unread.
\<close>

theorem damping_without_stiffness:
  "set_ee T None (Some d) fb tb w = (Inl TypeError, w)
   \<and> regulate_ee T None (Some d) fb tb w
      = Some (Inl (if server_up w then TypeError
                   else RuntimeError ''Action server connection time out!''),
              w\<lparr>events := events w @ [WaitForServer 3]\<rparr>)"
proof
  show "set_ee T None (Some d) fb tb w = (Inl TypeError, w)"
    by (rule set_ee_config_error) (rule fill_in_config_unset_stiffness)
  show "regulate_ee T None (Some d) fb tb w
      = Some (Inl (if server_up w then TypeError
                   else RuntimeError ''Action server connection time out!''),
              w\<lparr>events := events w @ [WaitForServer 3]\<rparr>)"
    by (cases "server_up w")
       (simp_all add: regulate_ee_no_server regulate_ee_config_error
          fill_in_config_unset_stiffness emit_def)
qed

theorem damping_without_stiffness_server_down:
  "regulate_ee identity_transform None (Some [30, 30, 30, 8, 8, 8 :: int]) 50 4
       (quiet_world False [] [])
     = Some (Inl (RuntimeError ''Action server connection time out!''),
             (quiet_world False [] [])\<lparr>events := [WaitForServer 3]\<rparr>)
   \<and> regulate_ee identity_transform None (Some [30, 30, 30, 8, 8, 8 :: int]) 50 4
       (quiet_world False [] [])
     \<noteq> Some (Inl TypeError, (quiet_world False [] [])\<lparr>events := [WaitForServer 3]\<rparr>)"
  by (simp add: regulate_ee_def wait_for_server_def emit_def quiet_world_def)


text \<open>
  C10. The fixed gains are put in only for a gain the caller supplies: when the
  stiffness (the damping) is left unset and the call does not fail, the config that
  is sent carries the unset value in that field, not the fixed gains.
\<close>

theorem unset_gains_stay_unset:
  "(set_ee T (None :: 'a list option) (d0 :: 'b list option) fb tb w = (Inr (), w') \<longrightarrow>
      (\<exists>c. events w' = events w @ [CallConfig c] \<and> stiffness c = None))
   \<and> (set_ee T (s0 :: 'a list option) (None :: 'b list option) fb tb w = (Inr (), w') \<longrightarrow>
      (\<exists>c. events w' = events w @ [CallConfig c] \<and> damping c = None))
   \<and> (regulate_ee T (None :: 'a list option) d0 fb tb w = Some (Inr (), w') \<longrightarrow>
      (\<exists>c. sent_configs (events w') = sent_configs (events w) @ [c] \<and> stiffness c = None))
   \<and> (regulate_ee T s0 (None :: 'b list option) fb tb w = Some (Inr (), w') \<longrightarrow>
      (\<exists>c. sent_configs (events w') = sent_configs (events w) @ [c] \<and> damping c = None))"
proof (intro conjI impI)
  assume run: "set_ee T (None :: 'a list option) d0 fb tb w = (Inr (), w')"
  from set_ee_ok [OF run] obtain c
    where c: "fill_in_config (fresh_config\<lparr>o_T_ee_desired := concat T\<rparr>) T
                (None :: 'a list option) d0 fb tb = Inr c"
      and w': "w' = emit (CallConfig c) w"
    by blast
  from fill_in_config_gains [OF c] have "stiffness c = None" by simp
  with w' show "\<exists>c. events w' = events w @ [CallConfig c] \<and> stiffness c = None"
    by (auto simp: emit_def)
next
  assume run: "set_ee T s0 (None :: 'b list option) fb tb w = (Inr (), w')"
  from set_ee_ok [OF run] obtain c
    where c: "fill_in_config (fresh_config\<lparr>o_T_ee_desired := concat T\<rparr>) T
                s0 (None :: 'b list option) fb tb = Inr c"
      and w': "w' = emit (CallConfig c) w"
    by blast
  from fill_in_config_gains [OF c] have "damping c = None" by simp
  with w' show "\<exists>c. events w' = events w @ [CallConfig c] \<and> damping c = None"
    by (auto simp: emit_def)
next
  assume run: "regulate_ee T (None :: 'a list option) d0 fb tb w = Some (Inr (), w')"
  from regulate_ee_ok [OF run] obtain g
    where up: "server_up w"
      and g: "fill_in_config fresh_config T (None :: 'a list option) d0 fb tb = Inr g"
    by blast
  from fill_in_config_gains [OF g] have "stiffness g = None" by simp
  with regulate_ee_events [OF run up g]
  show "\<exists>c. sent_configs (events w') = sent_configs (events w) @ [c] \<and> stiffness c = None"
    by (simp add: sent_configs_append)
next
  assume run: "regulate_ee T s0 (None :: 'b list option) fb tb w = Some (Inr (), w')"
  from regulate_ee_ok [OF run] obtain g
    where up: "server_up w"
      and g: "fill_in_config fresh_config T s0 (None :: 'b list option) fb tb = Inr g"
    by blast
  from fill_in_config_gains [OF g] have "damping g = None" by simp
  with regulate_ee_events [OF run up g]
  show "\<exists>c. sent_configs (events w') = sent_configs (events w) @ [c] \<and> damping c = None"
    by (simp add: sent_configs_append)
qed

theorem unset_gains_stay_unset_witness:
  "(\<exists>w' c. set_ee identity_transform (None :: int list option) (None :: int list option) 50 4
             (quiet_world True [] []) = (Inr (), w')
          \<and> events w' = [CallConfig c] \<and> stiffness c = None \<and> damping c = None)
   \<and> (\<exists>w' c. regulate_ee identity_transform (Some [1, 2, 3, 4, 5, 6 :: int])
             (None :: int list option) 50 4 (quiet_world True [ACTIVE] [0]) = Some (Inr (), w')
          \<and> sent_configs (events w') = [c] \<and> damping c = None
          \<and> stiffness c = Some [150, 150, 150, 10, 10, 10])"
proof -
  let ?n = "None :: int list option" and ?s = "Some [1, 2, 3, 4, 5, 6 :: int]"
  let ?w = "quiet_world True [] []" and ?wa = "quiet_world True [ACTIVE] [0]"
  obtain w1 c1 where r1: "set_ee identity_transform ?n ?n 50 4 ?w = (Inr (), w1)"
    and e1: "events w1 = [CallConfig c1]"
    by (simp add: set_ee_def fill_in_config_def emit_def quiet_world_def)
  obtain w2 c2 where r2: "regulate_ee identity_transform ?s ?n 50 4 ?wa = Some (Inr (), w2)"
    and e2: "sent_configs (events w2) = [c2]" "stiffness c2 = Some [150, 150, 150, 10, 10, 10]"
    by (simp add: regulate_ee_def fill_in_config_def fresh_config_def
        wait_for_server_def send_goal_def emit_def get_state_def time_time_def
        regulate_ee_poll.simps quiet_world_def)
  note inst1 = unset_gains_stay_unset
    [where T = identity_transform and ?d0.0 = ?n and ?s0.0 = ?n and fb = 50 and tb = 4
       and w = ?w and w' = w1]
  note inst2 = unset_gains_stay_unset
    [where T = identity_transform and ?d0.0 = ?n and ?s0.0 = ?s and fb = 50 and tb = 4
       and w = ?wa and w' = w2]
  from inst1 r1 e1 have a: "stiffness c1 = None \<and> damping c1 = None"
    by auto
  from inst2 r2 e2 have b: "damping c2 = None"
    by auto
  from a b r1 e1 r2 e2 show ?thesis by blast
qed

subsection \<open>The polling loop of \<^verbatim>\<open>regulate_ee\<close>\<close>

lemma regulate_ee_poll_leaves:
  "s \<noteq> PENDING \<Longrightarrow> length ts = Suc n \<Longrightarrow> \<forall>t\<in>set ts. float_sub t t0 \<le> 10 \<Longrightarrow>
   states w = replicate n PENDING @ s # rest \<Longrightarrow> clock w = ts @ trest \<Longrightarrow>
   regulate_ee_poll t0 PENDING w = Some (Inr s, w\<lparr>states := rest, clock := trest\<rparr>)"
proof (induction n arbitrary: w ts)
  case 0
  from "0.prems"(2) obtain t where ts: "ts = [t]"
    by (cases ts) auto
  with "0.prems" have "\<not> float_sub t t0 > 10" by simp
  with "0.prems" ts show ?case
    by (simp add: regulate_ee_poll.simps [of t0 PENDING] regulate_ee_poll.simps [of t0 s]
        get_state_def time_time_def)
next
  case (Suc n)
  from Suc.prems(2) obtain t ts' where ts: "ts = t # ts'" and len: "length ts' = Suc n"
    by (cases ts) auto
  let ?w2 = "w\<lparr>states := replicate n PENDING @ s # rest, clock := ts' @ trest\<rparr>"
  from Suc.prems ts have le: "\<not> float_sub t t0 > 10"
    and rest: "\<forall>t\<in>set ts'. float_sub t t0 \<le> 10"
    by auto
  have "regulate_ee_poll t0 PENDING w = regulate_ee_poll t0 PENDING ?w2"
    using Suc.prems(4,5) ts le
    by (subst regulate_ee_poll.simps) (simp add: get_state_def time_time_def)
  also have "\<dots> = Some (Inr s, ?w2\<lparr>states := rest, clock := trest\<rparr>)"
    using Suc.IH [OF Suc.prems(1) len rest, of ?w2] by simp
  finally show ?case by simp
qed

lemma regulate_ee_poll_timeout:
  "length ts = n \<Longrightarrow> \<forall>t\<in>set ts. float_sub t t0 \<le> 10 \<Longrightarrow> float_sub t1 t0 > 10 \<Longrightarrow>
   states w = replicate n PENDING @ s # rest \<Longrightarrow> clock w = ts @ t1 # trest \<Longrightarrow>
   regulate_ee_poll t0 PENDING w
     = Some (Inl (RuntimeError ''Timeout!''), cancel_goal (w\<lparr>states := rest, clock := trest\<rparr>))"
proof (induction n arbitrary: w ts)
  case 0
  then show ?case
    by (simp add: regulate_ee_poll.simps [of t0 PENDING] get_state_def time_time_def)
next
  case (Suc n)
  from Suc.prems(1) obtain t ts' where ts: "ts = t # ts'" and len: "length ts' = n"
    by (cases ts) auto
  let ?w2 = "w\<lparr>states := replicate n PENDING @ s # rest, clock := ts' @ t1 # trest\<rparr>"
  from Suc.prems ts have le: "\<not> float_sub t t0 > 10"
    and rest: "\<forall>t\<in>set ts'. float_sub t t0 \<le> 10"
    by auto
  have "regulate_ee_poll t0 PENDING w = regulate_ee_poll t0 PENDING ?w2"
    using Suc.prems(4,5) ts le
    by (subst regulate_ee_poll.simps) (simp add: get_state_def time_time_def)
  also have "\<dots> = Some (Inl (RuntimeError ''Timeout!''),
                      cancel_goal (?w2\<lparr>states := rest, clock := trest\<rparr>))"
    using Suc.IH [OF len rest Suc.prems(3), of ?w2] by simp
  finally show ?case by simp
qed

lemma fill_in_config_error:
  "fill_in_config cfg T s0 d0 fb tb = Inl e \<Longrightarrow> \<exists>msg. e = AssertionError msg \<or> e = TypeError"
  by (auto simp: fill_in_config_def split: option.splits if_splits)

lemma regulate_ee_submitted:
  assumes "server_up w"
    and "fill_in_config fresh_config T s0 d0 fb tb = Inr g"
    and "states w = st # ss"
    and "clock w = t0 # ts"
  shows "regulate_ee T s0 d0 fb tb w
     = (case regulate_ee_poll t0 st
               (w\<lparr>states := ss, clock := ts,
                  events := events w @ [WaitForServer 3, SendGoal g]\<rparr>) of
          None \<Rightarrow> None
        | Some (Inl e, w4) \<Rightarrow> Some (Inl e, w4)
        | Some (Inr state', w4) \<Rightarrow>
            if state' = ABORTED
            then Some (Inl (RuntimeError (''Goal aborted! '' @ result_status w4)), w4)
            else Some (Inr (), w4))"
  using assms
  by (cases w)
     (simp add: regulate_ee_def wait_for_server_def send_goal_def emit_def
      get_state_def time_time_def)

text \<open>
  C3. Once the goal is submitted, let the first status read that is not PENDING be
  read with the clock, in every round of the loop so far, not more than 10 past
  \<open>t0\<close>. If that status is ABORTED, \<^verbatim>\<open>regulate_ee\<close> raises the error that carries
  the status of the remote result; if it is any other status (ACTIVE, SUCCEEDED,
  PREEMPTED, LOST among them) the call returns normally, having read no further
  status. The condition on the clock is needed: the round that reads the status
  checks the clock afterwards, whatever it has read.
\<close>

theorem regulate_ee_leaves_pending:
  assumes "server_up w"
    and "fill_in_config fresh_config T s0 d0 fb tb = Inr g"
    and "s \<noteq> PENDING"
    and "states w = replicate n PENDING @ s # rest"
    and "clock w = t0 # ts @ trest"
    and "length ts = n"
    and "\<forall>t\<in>set ts. t - t0 \<le> 10"
  shows "regulate_ee T s0 d0 fb tb w
     = Some (if s = ABORTED then Inl (RuntimeError (''Goal aborted! '' @ result_status w))
             else Inr (),
             w\<lparr>states := rest, clock := trest,
               events := events w @ [WaitForServer 3, SendGoal g]\<rparr>)"
proof (cases n)
  case 0
  with assms(4,5,6) have st: "states w = s # rest" and cl: "clock w = t0 # trest"
    by simp_all
  have poll: "regulate_ee_poll t0 s w' = Some (Inr s, w')" for w'
    using assms(3) by (simp add: regulate_ee_poll.simps [of t0 s])
  show ?thesis
    by (simp only: regulate_ee_submitted [OF assms(1,2) st cl] poll) (cases w, simp)
next
  case (Suc m)
  with assms(4,5) have st: "states w = PENDING # (replicate m PENDING @ s # rest)"
    and cl: "clock w = t0 # (ts @ trest)"
    by simp_all
  have within: "\<forall>t\<in>set ts. float_sub t t0 \<le> 10"
    using assms(7) float_sub_within_10 by (meson not_less)
  let ?w3 = "w\<lparr>states := replicate m PENDING @ s # rest, clock := ts @ trest,
               events := events w @ [WaitForServer 3, SendGoal g]\<rparr>"
  have poll: "regulate_ee_poll t0 PENDING ?w3
                = Some (Inr s, ?w3\<lparr>states := rest, clock := trest\<rparr>)"
    using assms(3,6) within Suc by (intro regulate_ee_poll_leaves) simp_all
  show ?thesis
    by (simp only: regulate_ee_submitted [OF assms(1,2) st cl] poll) (cases w, simp)
qed

theorem regulate_ee_leaves_pending_witness:
  "regulate_ee identity_transform (None :: int list option) (None :: int list option) 50 4
       (quiet_world True [PENDING, PENDING, ABORTED, SUCCEEDED] [100, 101, 109])
     = Some (Inl (RuntimeError ''Goal aborted! controller fault''),
             (quiet_world True [SUCCEEDED] [])
               \<lparr>events := [WaitForServer 3,
                  SendGoal \<lparr>o_T_ee_desired = concat identity_transform, stiffness = None,
                    damping = None, ee_control_force_bound = 50,
                    ee_control_torque_bound = 4\<rparr>]\<rparr>)
   \<and> regulate_ee identity_transform (None :: int list option) (None :: int list option) 50 4
       (quiet_world True [PENDING, ACTIVE, SUCCEEDED] [100, 101])
     = Some (Inr (),
             (quiet_world True [SUCCEEDED] [])
               \<lparr>events := [WaitForServer 3,
                  SendGoal \<lparr>o_T_ee_desired = concat identity_transform, stiffness = None,
                    damping = None, ee_control_force_bound = 50,
                    ee_control_torque_bound = 4\<rparr>]\<rparr>)"
proof -
  let ?n = "None :: int list option"
  let ?g = "\<lparr>o_T_ee_desired = concat identity_transform, stiffness = None,
             damping = None, ee_control_force_bound = 50, ee_control_torque_bound = 4\<rparr>"
  have g: "fill_in_config fresh_config identity_transform ?n ?n 50 4 = Inr ?g"
    by (simp add: fill_in_config_def fresh_config_def)
  let ?w1 = "quiet_world True [PENDING, PENDING, ABORTED, SUCCEEDED] [100, 101, 109]"
  let ?w2 = "quiet_world True [PENDING, ACTIVE, SUCCEEDED] [100, 101]"
  have a: "regulate_ee identity_transform ?n ?n 50 4 ?w1
     = Some (if ABORTED = ABORTED
             then Inl (RuntimeError (''Goal aborted! '' @ result_status ?w1)) else Inr (),
             ?w1\<lparr>states := [SUCCEEDED], clock := [],
                 events := events ?w1 @ [WaitForServer 3, SendGoal ?g]\<rparr>)"
    by (rule regulate_ee_leaves_pending [where n = 2 and ts = "[101, 109]" and ?t0.0 = 100])
       (simp_all add: g quiet_world_def numeral_2_eq_2)
  have b: "regulate_ee identity_transform ?n ?n 50 4 ?w2
     = Some (if ACTIVE = ABORTED
             then Inl (RuntimeError (''Goal aborted! '' @ result_status ?w2)) else Inr (),
             ?w2\<lparr>states := [SUCCEEDED], clock := [],
                 events := events ?w2 @ [WaitForServer 3, SendGoal ?g]\<rparr>)"
    by (rule regulate_ee_leaves_pending [where n = 1 and ts = "[101]" and ?t0.0 = 100])
       (simp_all add: g quiet_world_def)
  from a b show ?thesis
    by (simp add: quiet_world_def)
qed

theorem regulate_ee_deadline_beats_status:
  "regulate_ee identity_transform (None :: int list option) (None :: int list option) 50 4
       (quiet_world True [PENDING, ABORTED] [100, 111])
     = Some (Inl (RuntimeError ''Timeout!''),
             (quiet_world True [] [])
               \<lparr>events := [WaitForServer 3,
                  SendGoal \<lparr>o_T_ee_desired = concat identity_transform, stiffness = None,
                    damping = None, ee_control_force_bound = 50,
                    ee_control_torque_bound = 4\<rparr>,
                  CancelGoal]\<rparr>)
   \<and> regulate_ee identity_transform (None :: int list option) (None :: int list option) 50 4
       (quiet_world True [PENDING, ACTIVE] [100, 111])
     = Some (Inl (RuntimeError ''Timeout!''),
             (quiet_world True [] [])
               \<lparr>events := [WaitForServer 3,
                  SendGoal \<lparr>o_T_ee_desired = concat identity_transform, stiffness = None,
                    damping = None, ee_control_force_bound = 50,
                    ee_control_torque_bound = 4\<rparr>,
                  CancelGoal]\<rparr>)"
proof -
  have late: "float_sub 111 100 > 10" by code_simp
  show ?thesis
    by (simp add: regulate_ee_def fill_in_config_def fresh_config_def
        wait_for_server_def send_goal_def cancel_goal_def emit_def get_state_def time_time_def
        regulate_ee_poll.simps quiet_world_def late)
qed

text \<open>
  C4. When the status read stays PENDING until a round of the loop finds more than
  10 between its reading of the clock and \<open>t0\<close>, \<^verbatim>\<open>regulate_ee\<close> cancels the goal and
  raises the timeout error (the status read in that last round does not matter); and
  whenever it raises the timeout error, the cancel is the last thing it has done. The
  time that has passed is the difference the client computes, \<open>float_sub t t0\<close>
  (\<open>float_sub_exceeds_10_iff\<close> says when it is more than 10).
\<close>

theorem regulate_ee_pending_timeout:
  "(server_up w \<and> fill_in_config fresh_config T s0 d0 fb tb = Inr g
      \<and> states w = PENDING # replicate n PENDING @ s # rest
      \<and> clock w = t0 # ts @ t1 # trest \<and> length ts = n
      \<and> (\<forall>t\<in>set ts. float_sub t t0 \<le> 10) \<and> float_sub t1 t0 > 10 \<longrightarrow>
    regulate_ee T s0 d0 fb tb w
      = Some (Inl (RuntimeError ''Timeout!''),
              w\<lparr>states := rest, clock := trest,
                events := events w @ [WaitForServer 3, SendGoal g, CancelGoal]\<rparr>))
   \<and> (regulate_ee T s0 d0 fb tb w = Some (Inl (RuntimeError ''Timeout!''), w') \<longrightarrow>
        (\<exists>g'. events w' = events w @ [WaitForServer 3, SendGoal g', CancelGoal]))"
proof (intro conjI impI)
  assume a: "server_up w \<and> fill_in_config fresh_config T s0 d0 fb tb = Inr g
      \<and> states w = PENDING # replicate n PENDING @ s # rest
      \<and> clock w = t0 # ts @ t1 # trest \<and> length ts = n
      \<and> (\<forall>t\<in>set ts. float_sub t t0 \<le> 10) \<and> float_sub t1 t0 > 10"
  let ?w3 = "w\<lparr>states := replicate n PENDING @ s # rest, clock := ts @ t1 # trest,
               events := events w @ [WaitForServer 3, SendGoal g]\<rparr>"
  have poll: "regulate_ee_poll t0 PENDING ?w3
                = Some (Inl (RuntimeError ''Timeout!''),
                        cancel_goal (?w3\<lparr>states := rest, clock := trest\<rparr>))"
    using a by (intro regulate_ee_poll_timeout) simp_all
  from a have up: "server_up w" and g: "fill_in_config fresh_config T s0 d0 fb tb = Inr g"
    and st: "states w = PENDING # (replicate n PENDING @ s # rest)"
    and cl: "clock w = t0 # (ts @ t1 # trest)"
    by simp_all
  show "regulate_ee T s0 d0 fb tb w
      = Some (Inl (RuntimeError ''Timeout!''),
              w\<lparr>states := rest, clock := trest,
                events := events w @ [WaitForServer 3, SendGoal g, CancelGoal]\<rparr>)"
    by (simp only: regulate_ee_submitted [OF up g st cl] poll)
       (cases w, simp add: cancel_goal_def emit_def)
next
  assume run: "regulate_ee T s0 d0 fb tb w = Some (Inl (RuntimeError ''Timeout!''), w')"
  have up: "server_up w"
  proof (rule ccontr)
    assume "\<not> server_up w"
    from regulate_ee_no_server [OF this, of T s0 d0 fb tb] run show False by simp
  qed
  obtain g' where g': "fill_in_config fresh_config T s0 d0 fb tb = Inr g'"
  proof (cases "fill_in_config fresh_config T s0 d0 fb tb")
    case (Inl e)
    from regulate_ee_config_error [OF up Inl] run fill_in_config_error [OF Inl]
    have False by auto
    then show ?thesis ..
  next
    case (Inr c)
    then show ?thesis by (rule that)
  qed
  from regulate_ee_events [OF run up g']
  show "\<exists>g'. events w' = events w @ [WaitForServer 3, SendGoal g', CancelGoal]"
    by auto
qed

theorem regulate_ee_pending_timeout_witness:
  "regulate_ee identity_transform (None :: int list option) (None :: int list option) 50 4
       (quiet_world True [PENDING, PENDING, PENDING, PENDING, ACTIVE] [100, 104, 110, 111, 120])
     = Some (Inl (RuntimeError ''Timeout!''),
             (quiet_world True [ACTIVE] [120])
               \<lparr>events := [WaitForServer 3,
                  SendGoal \<lparr>o_T_ee_desired = concat identity_transform, stiffness = None,
                    damping = None, ee_control_force_bound = 50,
                    ee_control_torque_bound = 4\<rparr>,
                  CancelGoal]\<rparr>)"
proof -
  let ?n = "None :: int list option"
  let ?g = "\<lparr>o_T_ee_desired = concat identity_transform, stiffness = None,
             damping = None, ee_control_force_bound = 50, ee_control_torque_bound = 4\<rparr>"
  let ?w = "quiet_world True [PENDING, PENDING, PENDING, PENDING, ACTIVE]
              [100, 104, 110, 111, 120]"
  have g: "fill_in_config fresh_config identity_transform ?n ?n 50 4 = Inr ?g"
    by (simp add: fill_in_config_def fresh_config_def)
  have early: "float_sub 104 100 \<le> 10" "float_sub 110 100 \<le> 10"
    and late: "float_sub 111 100 > 10"
    by code_simp+
  have hyp: "server_up ?w \<and> fill_in_config fresh_config identity_transform ?n ?n 50 4 = Inr ?g
      \<and> states ?w = PENDING # replicate 2 PENDING @ PENDING # [ACTIVE]
      \<and> clock ?w = 100 # [104, 110] @ 111 # [120] \<and> length [104, 110 :: real] = 2
      \<and> (\<forall>t\<in>set [104, 110 :: real]. float_sub t 100 \<le> 10) \<and> float_sub 111 100 > 10"
    using g early late by (simp add: quiet_world_def numeral_2_eq_2)
  from regulate_ee_pending_timeout
    [where w = ?w and T = identity_transform and ?s0.0 = ?n and ?d0.0 = ?n and fb = 50
       and tb = 4 and g = ?g and n = 2 and s = PENDING and rest = "[ACTIVE]"
       and ?t0.0 = 100 and ts = "[104, 110]" and ?t1.0 = 111 and trest = "[120]"] hyp
  have "regulate_ee identity_transform ?n ?n 50 4 ?w
      = Some (Inl (RuntimeError ''Timeout!''),
              ?w\<lparr>states := [ACTIVE], clock := [120],
                events := events ?w @ [WaitForServer 3, SendGoal ?g, CancelGoal]\<rparr>)"
    by blast
  then show ?thesis
    by (simp add: quiet_world_def)
qed

subsection \<open>\<^verbatim>\<open>get_ee_transform\<close>\<close>

lemma length_rows: "length (rows r c xs) = r"
  by (induction r arbitrary: xs) simp_all

lemma rows_nth:
  "i < r \<Longrightarrow> j < c \<Longrightarrow> length xs = r * c \<Longrightarrow> rows r c xs ! i ! j = xs ! (i * c + j)"
proof (induction r arbitrary: i xs)
  case 0
  then show ?case by simp
next
  case (Suc r)
  show ?case
  proof (cases i)
    case 0
    with Suc.prems show ?thesis by simp
  next
    case (Suc k)
    have len: "length (drop c xs) = r * c"
      using Suc.prems by simp
    have "rows r c (drop c xs) ! k ! j = drop c xs ! (k * c + j)"
      using Suc.IH [of k "drop c xs"] Suc.prems \<open>i = Suc k\<close> len by simp
    also have "\<dots> = xs ! (c + (k * c + j))"
      using Suc.prems by simp
    finally show ?thesis
      using \<open>i = Suc k\<close> by (simp add: add.assoc)
  qed
qed

lemma rows_row_length:
  "i < r \<Longrightarrow> length xs = r * c \<Longrightarrow> length (rows r c xs ! i) = c"
proof (induction r arbitrary: i xs)
  case 0
  then show ?case by simp
next
  case (Suc r)
  then show ?case by (cases i) simp_all
qed

text \<open>
  C6. When the pose payload of the response has 16 entries, \<^verbatim>\<open>get_ee_transform\<close>
  returns a matrix of 4 rows of 4 entries whose entry in row \<open>i\<close>, column \<open>j\<close> is
  entry \<open>4 * i + j\<close> of the payload.
\<close>

theorem get_ee_transform_row_major:
  assumes "length (o_T_ee w) = 16"
  shows "\<exists>m. get_ee_transform w = (Inr m, emit CallGetEeTransform w)
           \<and> length m = 4
           \<and> (\<forall>i<4. length (m ! i) = 4 \<and> (\<forall>j<4. m ! i ! j = o_T_ee w ! (4 * i + j)))"
proof -
  let ?v = "o_T_ee w"
  have v: "length ?v = 4 * 4" using assms by simp
  have "get_ee_transform w = (Inr (rows 4 4 ?v), emit CallGetEeTransform w)"
    using assms by (simp add: get_ee_transform_def reshape_def emit_def)
  moreover have "length (rows 4 4 ?v) = 4"
    by (rule length_rows)
  moreover have "length (rows 4 4 ?v ! i) = 4" if "i < 4" for i
    using that v by (rule rows_row_length)
  moreover have "rows 4 4 ?v ! i ! j = ?v ! (4 * i + j)" if "i < 4" "j < 4" for i j
    using rows_nth [OF that v] by (simp add: mult.commute)
  ultimately show ?thesis by blast
qed

theorem get_ee_transform_row_major_witness:
  "length (o_T_ee (quiet_world True [] [])) = 16
   \<and> (\<exists>m. fst (get_ee_transform (quiet_world True [] [])) = Inr m
          \<and> m ! 2 ! 1 = o_T_ee (quiet_world True [] []) ! 9 \<and> m ! 2 ! 1 = 10)"
proof -
  have len: "length (o_T_ee (quiet_world True [] [])) = 16"
    by (simp add: quiet_world_def)
  from get_ee_transform_row_major [OF len] obtain m
    where m: "get_ee_transform (quiet_world True [] [])
                = (Inr m, emit CallGetEeTransform (quiet_world True [] []))"
      and ix: "\<forall>i<4. length (m ! i) = 4
                 \<and> (\<forall>j<4. m ! i ! j = o_T_ee (quiet_world True [] []) ! (4 * i + j))"
    by blast
  from ix have "m ! 2 ! 1 = o_T_ee (quiet_world True [] []) ! (4 * 2 + 1)"
    by simp
  then have "m ! 2 ! 1 = o_T_ee (quiet_world True [] []) ! 9" by simp
  moreover have "o_T_ee (quiet_world True [] []) ! 9 = 10"
    by (simp add: quiet_world_def)
  ultimately show ?thesis using len m by auto
qed

subsection \<open>\<^verbatim>\<open>is_idle\<close>\<close>

text \<open>
  C7. \<^verbatim>\<open>is_idle\<close> returns true if and only if the status reported by the action
  client is one of SUCCEEDED, PREEMPTED, ABORTED and LOST; for PENDING, ACTIVE and
  every other status it returns false.
\<close>

theorem is_idle_iff:
  "is_idle (w\<lparr>states := s # ss\<rparr>)
     = Some (s \<in> {SUCCEEDED, PREEMPTED, ABORTED, LOST}, w\<lparr>states := ss\<rparr>)
   \<and> is_idle (w\<lparr>states := PENDING # ss\<rparr>) = Some (False, w\<lparr>states := ss\<rparr>)
   \<and> is_idle (w\<lparr>states := ACTIVE # ss\<rparr>) = Some (False, w\<lparr>states := ss\<rparr>)"
  by (cases s) (simp_all add: is_idle_def get_state_def idle_status_def)

subsection \<open>\<^verbatim>\<open>stop\<close>\<close>

lemma is_idle_events: "is_idle w = Some (b, w') \<Longrightarrow> events w' = events w"
  by (auto simp: is_idle_def get_state_def split: list.splits)

lemma stop_poll_events: "stop_poll t0 w = Some (r, w') \<Longrightarrow> events w' = events w"
proof (induction t0 w rule: stop_poll.induct)
  case (1 t0 w)
  from "1.prems" obtain idle w1 where idle: "is_idle w = Some (idle, w1)"
    by (subst (asm) stop_poll.simps) (auto split: option.splits)
  show ?case
  proof (cases idle)
    case True
    with "1.prems" idle is_idle_events [OF idle] show ?thesis
      by (subst (asm) stop_poll.simps) auto
  next
    case False
    with "1.prems" idle obtain t w2 where tt: "time_time w1 = Some (t, w2)"
      and rest: "(if float_sub t t0 > 3 then Some (Inl (RuntimeError ''Stop timeout!''), w2)
                  else stop_poll t0 w2) = Some (r, w')"
      by (subst (asm) stop_poll.simps) (auto split: option.splits)
    have ev: "events w2 = events w"
      using is_idle_events [OF idle] time_time_events [OF tt] by simp
    show ?thesis
    proof (cases "float_sub t t0 > 3")
      case True
      with rest ev show ?thesis by auto
    next
      case late: False
      with rest have "stop_poll t0 w2 = Some (r, w')" by simp
      from "1.IH" [OF idle refl False tt refl late this] ev show ?thesis by simp
    qed
  qed
qed

lemma stop_poll_timeout:
  "length ps = Suc n \<Longrightarrow> \<forall>p\<in>set ps. \<not> idle_status p \<Longrightarrow>
   length ts = n \<Longrightarrow> \<forall>t\<in>set ts. float_sub t t0 \<le> 3 \<Longrightarrow> float_sub t1 t0 > 3 \<Longrightarrow>
   states w = ps @ rest \<Longrightarrow> clock w = ts @ t1 # trest \<Longrightarrow>
   stop_poll t0 w
     = Some (Inl (RuntimeError ''Stop timeout!''), w\<lparr>states := rest, clock := trest\<rparr>)"
proof (induction n arbitrary: w ps ts)
  case 0
  from "0.prems"(1) obtain p where ps: "ps = [p]"
    by (cases ps) auto
  with "0.prems" show ?case
    by (simp add: stop_poll.simps [of t0 w] is_idle_def get_state_def time_time_def)
next
  case (Suc n)
  from Suc.prems(1) obtain p ps' where ps: "ps = p # ps'" and lps: "length ps' = Suc n"
    by (cases ps) auto
  from Suc.prems(3) obtain t ts' where ts: "ts = t # ts'" and lts: "length ts' = n"
    by (cases ts) auto
  let ?w2 = "w\<lparr>states := ps' @ rest, clock := ts' @ t1 # trest\<rparr>"
  from Suc.prems ps ts have busy: "\<not> idle_status p" "\<forall>p\<in>set ps'. \<not> idle_status p"
    and le: "\<not> float_sub t t0 > 3" "\<forall>t\<in>set ts'. float_sub t t0 \<le> 3"
    by auto
  have "stop_poll t0 w = stop_poll t0 ?w2"
    using Suc.prems(6,7) ps ts busy(1) le(1)
    by (subst stop_poll.simps) (simp add: is_idle_def get_state_def time_time_def)
  also have "\<dots> = Some (Inl (RuntimeError ''Stop timeout!''),
                      ?w2\<lparr>states := rest, clock := trest\<rparr>)"
    using Suc.IH [OF lps busy(2) lts le(2) Suc.prems(5), of ?w2] by simp
  finally show ?case by simp
qed

text \<open>
  C8. \<^verbatim>\<open>stop\<close> called while \<^verbatim>\<open>is_idle()\<close> is true returns at once and cancels
  nothing. Otherwise it cancels the goal, exactly once, and polls \<^verbatim>\<open>is_idle()\<close>; when
  \<^verbatim>\<open>is_idle()\<close> stays false until a round of the loop finds more than 3 between its
  reading of the clock and \<open>t0\<close>, it raises the stop-timeout error. The time that has
  passed is the difference the client computes, \<open>float_sub t t0\<close>
  (\<open>float_sub_exceeds_3_iff\<close> says when it is more than 3).
\<close>

theorem stop_cancels_once:
  "(states w = s # ss \<and> idle_status s \<longrightarrow> stop w = Some (Inr (), w\<lparr>states := ss\<rparr>))
   \<and> (states w = s # ss \<and> \<not> idle_status s \<and> stop w = Some (r, w') \<longrightarrow>
        events w' = events w @ [CancelGoal])
   \<and> (states w = s # ps @ rest \<and> \<not> idle_status s \<and> length ps = Suc n
        \<and> (\<forall>p\<in>set ps. \<not> idle_status p)
        \<and> clock w = t0 # ts @ t1 # trest \<and> length ts = n
        \<and> (\<forall>t\<in>set ts. float_sub t t0 \<le> 3) \<and> float_sub t1 t0 > 3 \<longrightarrow>
      stop w = Some (Inl (RuntimeError ''Stop timeout!''),
                     w\<lparr>states := rest, clock := trest,
                       events := events w @ [CancelGoal]\<rparr>))"
proof (intro conjI impI)
  assume "states w = s # ss \<and> idle_status s"
  then show "stop w = Some (Inr (), w\<lparr>states := ss\<rparr>)"
    by (simp add: stop_def is_idle_def get_state_def)
next
  assume a: "states w = s # ss \<and> \<not> idle_status s \<and> stop w = Some (r, w')"
  then obtain t0' w2 where tt: "time_time (cancel_goal (w\<lparr>states := ss\<rparr>)) = Some (t0', w2)"
    and poll: "stop_poll t0' w2 = Some (r, w')"
    by (auto simp: stop_def is_idle_def get_state_def split: option.splits)
  from stop_poll_events [OF poll] time_time_events [OF tt]
  show "events w' = events w @ [CancelGoal]"
    by (simp add: cancel_goal_def emit_def)
next
  assume a: "states w = s # ps @ rest \<and> \<not> idle_status s \<and> length ps = Suc n
        \<and> (\<forall>p\<in>set ps. \<not> idle_status p)
        \<and> clock w = t0 # ts @ t1 # trest \<and> length ts = n
        \<and> (\<forall>t\<in>set ts. float_sub t t0 \<le> 3) \<and> float_sub t1 t0 > 3"
  let ?w2 = "w\<lparr>states := ps @ rest, events := events w @ [CancelGoal],
               clock := ts @ t1 # trest\<rparr>"
  have poll: "stop_poll t0 ?w2
                = Some (Inl (RuntimeError ''Stop timeout!''),
                        ?w2\<lparr>states := rest, clock := trest\<rparr>)"
    using a by (intro stop_poll_timeout [where ps = ps and ts = ts and n = n]) simp_all
  have "stop w = stop_poll t0 ?w2"
    using a by (simp add: stop_def is_idle_def get_state_def time_time_def
        cancel_goal_def emit_def)
  with poll show "stop w = Some (Inl (RuntimeError ''Stop timeout!''),
                     w\<lparr>states := rest, clock := trest,
                       events := events w @ [CancelGoal]\<rparr>)"
    by (cases w) simp
qed

theorem stop_cancels_once_witness:
  "stop (quiet_world True [SUCCEEDED, ACTIVE] [100]) = Some (Inr (), quiet_world True [ACTIVE] [100])
   \<and> stop (quiet_world True [ACTIVE, ACTIVE, PENDING, ACTIVE, LOST] [100, 101, 103, 104, 105])
      = Some (Inl (RuntimeError ''Stop timeout!''),
              (quiet_world True [LOST] [105])\<lparr>events := [CancelGoal]\<rparr>)
   \<and> (\<exists>w'. stop (quiet_world True [ACTIVE, ACTIVE, PREEMPTED] [100, 101]) = Some (Inr (), w')
          \<and> events w' = [CancelGoal])"
proof -
  let ?w1 = "quiet_world True [SUCCEEDED, ACTIVE] [100]"
  let ?w2 = "quiet_world True [ACTIVE, ACTIVE, PENDING, ACTIVE, LOST] [100, 101, 103, 104, 105]"
  let ?w3 = "quiet_world True [ACTIVE, ACTIVE, PREEMPTED] [100, 101]"
  have h1: "states ?w1 = SUCCEEDED # [ACTIVE] \<and> idle_status SUCCEEDED"
    by (simp add: quiet_world_def idle_status_def)
  from stop_cancels_once [where w = ?w1 and s = SUCCEEDED and ss = "[ACTIVE]"] h1
  have a: "stop ?w1 = Some (Inr (), ?w1\<lparr>states := [ACTIVE]\<rparr>)"
    by blast
  have early: "float_sub 101 100 \<le> 3" "float_sub 103 100 \<le> 3" "\<not> float_sub 101 100 > 3"
    and late: "float_sub 104 100 > 3"
    by code_simp+
  have h2: "states ?w2 = ACTIVE # [ACTIVE, PENDING, ACTIVE] @ [LOST] \<and> \<not> idle_status ACTIVE
        \<and> length [ACTIVE, PENDING, ACTIVE] = Suc 2
        \<and> (\<forall>p\<in>set [ACTIVE, PENDING, ACTIVE]. \<not> idle_status p)
        \<and> clock ?w2 = 100 # [101, 103] @ 104 # [105] \<and> length [101, 103 :: real] = 2
        \<and> (\<forall>t\<in>set [101, 103 :: real]. float_sub t 100 \<le> 3) \<and> float_sub 104 100 > 3"
    using early late by (simp add: quiet_world_def idle_status_def)
  from stop_cancels_once
    [where w = ?w2 and s = ACTIVE and ps = "[ACTIVE, PENDING, ACTIVE]" and rest = "[LOST]"
       and n = 2 and ?t0.0 = 100 and ts = "[101, 103]" and ?t1.0 = 104 and trest = "[105]"] h2
  have b: "stop ?w2 = Some (Inl (RuntimeError ''Stop timeout!''),
                     ?w2\<lparr>states := [LOST], clock := [105],
                       events := events ?w2 @ [CancelGoal]\<rparr>)"
    by blast
  obtain w' where run: "stop ?w3 = Some (Inr (), w')"
    using early(3)
    by (simp add: stop_def stop_poll.simps is_idle_def get_state_def time_time_def
        cancel_goal_def emit_def idle_status_def quiet_world_def)
  have h3: "states ?w3 = ACTIVE # [ACTIVE, PREEMPTED] \<and> \<not> idle_status ACTIVE"
    by (simp add: quiet_world_def idle_status_def)
  from stop_cancels_once
    [where w = ?w3 and s = ACTIVE and ss = "[ACTIVE, PREEMPTED]" and r = "Inr ()" and w' = w']
    h3 run
  have c: "events w' = events ?w3 @ [CancelGoal]"
    by blast
  from a b c run show ?thesis
    by (simp add: quiet_world_def)
qed

end
